theory Spec2Isabelle
  imports Main "HOL-Library.Sublist" "HOL-Library.Word"
begin

section \<open>Errors\<close>

text \<open>
  Go errors are values. The model keeps the kinds the code distinguishes by identity or by
  type (the sentinel errors of the resume token codec, \<open>io.EOF\<close>, \<open>*DatasetDoesNotExist\<close>,
  \<open>*ZFSError\<close>), a message error for \<open>errors.New\<close> and \<open>fmt.Errorf\<close>, and \<open>errors.Wrap\<close>,
  which keeps the wrapped error. \<open>RtValErr\<close> and \<open>RtNotSupported\<close> are the two error types
  local to \<open>Sender.Send\<close>, each a struct around an error. A nil pointer dereference or a call
  of \<open>panic\<close> is the value \<open>Panic\<close>.
  Messages are kept without their formatted arguments.
\<close>

datatype error =
    Msg string
  | Wrap string error
  | DatasetDoesNotExist string
  | ZFSError string
  | EOF
  | ErrShortWrite
  | ErrInvalidWrite
  | ResumeTokenDecodingNotSupported
  | ResumeTokenParsingError
  | ResumeTokenCorruptError
  | RtValErr error
  | RtNotSupported error
  | Panic string

section \<open>Dataset paths (zfs/zfs.go)\<close>

text \<open>\<open>type DatasetPath struct { comps []string }\<close>\<close>

record DatasetPath =
  comps :: "string list"

text \<open>
  \<open>strings.Join(elems, sep)\<close> and \<open>strings.Split(s, sep)\<close> for the one-byte separator the
  code uses. \<open>Split\<close> of the empty string is the list holding one empty string; it never
  returns the empty list, so the last branch of the \<open>case\<close> is not reached.
\<close>

fun Join :: "string list \<Rightarrow> string \<Rightarrow> string" where
  "Join [] sep = []"
| "Join [x] sep = x"
| "Join (x # y # ys) sep = x @ sep @ Join (y # ys) sep"

fun Split :: "string \<Rightarrow> char \<Rightarrow> string list" where
  "Split [] sep = [[]]"
| "Split (c # cs) sep =
     (if c = sep then [] # Split cs sep
      else (case Split cs sep of w # ws \<Rightarrow> (c # w) # ws | [] \<Rightarrow> [[c]]))"

text \<open>\<open>strings.ContainsAny(s, chars)\<close>: some byte of \<open>s\<close> is one of \<open>chars\<close> (all ASCII here).\<close>

definition ContainsAny :: "string \<Rightarrow> string \<Rightarrow> bool" where
  "ContainsAny s chars = list_ex (\<lambda>c. c \<in> set chars) s"

text \<open>\<open>const FORBIDDEN = "@#|\t<>*"\<close>\<close>

definition FORBIDDEN :: string where
  "FORBIDDEN = ''@#|'' @ [CHR 0x09] @ ''<>*''"

definition ToString :: "DatasetPath \<Rightarrow> string" where
  "ToString p = Join (comps p) ''/''"

definition Length :: "DatasetPath \<Rightarrow> nat" where
  "Length p = length (comps p)"

text \<open>
  \<open>NewDatasetPath\<close>: the empty string is the empty path; a string with a forbidden byte is
  refused; otherwise the string is split at every \<open>/\<close> and refused when the last component
  is empty. No other component is looked at.
\<close>

definition NewDatasetPath :: "string \<Rightarrow> error + DatasetPath" where
  "NewDatasetPath s =
     (if s = [] then Inr \<lparr>comps = []\<rparr>
      else if ContainsAny s FORBIDDEN
        then Inl (Msg ''contains forbidden characters'')
      else (let cs = Split s (CHR ''/'') in
        if last cs = [] then Inl (Msg ''must not end with a /'')
        else Inr \<lparr>comps = cs\<rparr>))"

text \<open>
  \<open>HasPrefix\<close> and \<open>Equal\<close> compare component by component over the indices of the shorter
  (respectively, either) list, after the length test.
\<close>

definition HasPrefix :: "DatasetPath \<Rightarrow> DatasetPath \<Rightarrow> bool" where
  "HasPrefix p pre =
     (if length (comps pre) > length (comps p) then False
      else list_all (\<lambda>i. comps pre ! i = comps p ! i) [0..<length (comps pre)])"

definition Equal :: "DatasetPath \<Rightarrow> DatasetPath \<Rightarrow> bool" where
  "Equal p q =
     (if length (comps p) \<noteq> length (comps q) then False
      else list_all (\<lambda>i. comps p ! i = comps q ! i) [0..<length (comps p)])"

text \<open>\<open>TrimPrefix\<close> leaves the path alone unless it has the prefix.\<close>

definition TrimPrefix :: "DatasetPath \<Rightarrow> DatasetPath \<Rightarrow> DatasetPath" where
  "TrimPrefix p pre =
     (if \<not> HasPrefix p pre then p
      else \<lparr>comps = map (\<lambda>i. comps p ! (length (comps pre) + i))
                        [0..<length (comps p) - length (comps pre)]\<rparr>)"

definition Extend :: "DatasetPath \<Rightarrow> DatasetPath \<Rightarrow> DatasetPath" where
  "Extend p ext = \<lparr>comps = comps p @ comps ext\<rparr>"

text \<open>The bytes of \<open>FORBIDDEN\<close>, as a set.\<close>

definition forbidden_chars :: "char set" where
  "forbidden_chars = {CHR ''@'', CHR ''#'', CHR ''|'', CHR 0x09, CHR ''<'', CHR ''>'', CHR ''*''}"

section \<open>The stream copier (zfs/zfs.go)\<close>

text \<open>
  A reader and a writer are seen through the results of their successive calls:
  \<open>Read\<close> returns \<open>(n, err)\<close> and so does \<open>Write\<close>. A script that runs out stands for a call
  that has not returned, and the copy then has no result (\<open>None\<close>).
\<close>

type_synonym io_result = "int \<times> error option"

text \<open>
  \<open>type readErrRecorder struct { io.ReadCloser; readErr error }\<close>.
  \<open>Read\<close> forwards to the wrapped reader and stores the error it returned, nil included.
\<close>

record readErrRecorder =
  ReadCloser :: "io_result list"
  readErr :: "error option"

definition recorder_Read :: "readErrRecorder \<Rightarrow> (io_result \<times> readErrRecorder) option" where
  "recorder_Read r =
     (case ReadCloser r of
        [] \<Rightarrow> None
      | (n, err) # rest \<Rightarrow> Some ((n, err), r\<lparr>ReadCloser := rest, readErr := err\<rparr>))"

text \<open>
  \<open>io.Copy(dst, src)\<close> of the Go library, for a source without \<open>WriteTo\<close> (the recorder
  has none) and a sink written through \<open>Write\<close>: read; when bytes were read, write them, an
  invalid count becoming \<open>errInvalidWrite\<close>, a write error or a short write ending the loop;
  then a read error ends the loop, \<open>EOF\<close> as success. The byte count is not used by the
  caller and is left out. The result is the error, the recorder and the writer's remaining
  script.
\<close>

function io_Copy ::
  "io_result list \<Rightarrow> readErrRecorder \<Rightarrow> (error option \<times> readErrRecorder \<times> io_result list) option"
where
  "io_Copy dst src =
     (case recorder_Read src of
        None \<Rightarrow> None
      | Some ((nr, er), src') \<Rightarrow>
          if nr > 0 then
            (case dst of
               [] \<Rightarrow> None
             | (nw0, ew0) # dst' \<Rightarrow>
                 let invalid = (nw0 < 0 \<or> nr < nw0);
                     nw = (if invalid then 0 else nw0);
                     ew = (if invalid \<and> ew0 = None then Some ErrInvalidWrite else ew0)
                 in if ew \<noteq> None then Some (ew, src', dst')
                    else if nr \<noteq> nw then Some (Some ErrShortWrite, src', dst')
                    else if er \<noteq> None
                      then Some (if er \<noteq> Some EOF then er else None, src', dst')
                    else io_Copy dst' src')
          else if er \<noteq> None
            then Some (if er \<noteq> Some EOF then er else None, src', dst)
          else io_Copy dst src')"
  by pat_completeness auto
termination
  by (relation "measure (\<lambda>(dst, src). length (ReadCloser src))")
     (auto simp: recorder_Read_def split: list.splits)

declare io_Copy.simps [simp del]

text \<open>\<open>type sendStreamCopierError struct { isReadErr bool; err error }\<close>\<close>

record sendStreamCopierError =
  isReadErr :: bool
  err :: error

definition IsReadError :: "sendStreamCopierError \<Rightarrow> bool" where
  "IsReadError e = isReadErr e"

definition IsWriteError :: "sendStreamCopierError \<Rightarrow> bool" where
  "IsWriteError e = (\<not> isReadErr e)"

text \<open>\<open>type sendStreamCopier struct { recorder readErrRecorder }\<close>\<close>

record sendStreamCopier =
  recorder :: readErrRecorder

definition newSendStreamCopier :: "io_result list \<Rightarrow> sendStreamCopier" where
  "newSendStreamCopier stream = \<lparr>recorder = \<lparr>ReadCloser = stream, readErr = None\<rparr>\<rparr>"

text \<open>
  \<open>WriteStreamTo\<close>: copy, then classify a failed copy by the recorder's \<open>readErr\<close>. The
  result holds the copier error (\<open>None\<close> for nil), the copier and the writer's remaining
  script.
\<close>

definition WriteStreamTo ::
  "sendStreamCopier \<Rightarrow> io_result list
     \<Rightarrow> (sendStreamCopierError option \<times> sendStreamCopier \<times> io_result list) option"
where
  "WriteStreamTo c w =
     (case io_Copy w (recorder c) of
        None \<Rightarrow> None
      | Some (cerr, rec', w') \<Rightarrow>
          Some ((case cerr of
                   Some e \<Rightarrow>
                     (case readErr rec' of
                        Some re \<Rightarrow> Some \<lparr>isReadErr = True, err = re\<rparr>
                      | None \<Rightarrow> Some \<lparr>isReadErr = False, err = e\<rparr>)
                 | None \<Rightarrow> None),
                c\<lparr>recorder := rec'\<rparr>, w'))"

section \<open>The volume manager as the cursor code sees it\<close>

text \<open>
  \<open>type ZFSPropCreateTxgAndGuidProps struct { CreateTXG, Guid uint64 }\<close>
\<close>

record ZFSPropCreateTxgAndGuidProps =
  CreateTXG :: "64 word"
  Guid :: "64 word"

text \<open>
  The \<open>zfs\<close> binary is outside the program. Its state, as far as the replication cursor
  reads and writes it, is the set of snapshots and bookmarks, by absolute name
  (\<open>fs@snap\<close>, \<open>fs#bookmark\<close>), each with its \<open>createtxg\<close> and \<open>guid\<close>. A command can also
  fail for a reason of its own (the tool exits with an error text): \<open>fault\<close> gives that text
  for a command line.
\<close>

datatype zfs_cmd = CmdGet string | CmdDestroy string | CmdBookmark string string

record zfs_state =
  versions :: "string \<rightharpoonup> ZFSPropCreateTxgAndGuidProps"
  fault :: "zfs_cmd \<Rightarrow> string option"

text \<open>
  \<open>ZFSGetCreateTXGAndGuid\<close> (through \<open>zfsGetNumberProps\<close> and \<open>zfsGet\<close>): a dataset that does
  not exist is the error \<open>*DatasetDoesNotExist\<close>, passed through as it is; any other failure
  is wrapped.
\<close>

definition ZFSGetCreateTXGAndGuid :: "zfs_state \<Rightarrow> string \<Rightarrow> error + ZFSPropCreateTxgAndGuidProps" where
  "ZFSGetCreateTXGAndGuid st ds =
     (case fault st (CmdGet ds) of
        Some txt \<Rightarrow> Inl (Wrap ''zfs: set replication cursor: get snapshot createtxg'' (ZFSError txt))
      | None \<Rightarrow>
          (case versions st ds of
             None \<Rightarrow> Inl (DatasetDoesNotExist ds)
           | Some props \<Rightarrow> Inr props))"

text \<open>
  \<open>ZFSDestroy\<close> and \<open>ZFSBookmark\<close> run \<open>zfs destroy\<close> and \<open>zfs bookmark\<close>. Destroying removes
  the version; a bookmark of a snapshot takes the snapshot's \<open>createtxg\<close> and \<open>guid\<close>, and
  cannot be created when the snapshot is missing or the bookmark exists.
\<close>

definition ZFSDestroy :: "string \<Rightarrow> zfs_state \<Rightarrow> error option \<times> zfs_state" where
  "ZFSDestroy arg st =
     (case fault st (CmdDestroy arg) of
        Some txt \<Rightarrow> (Some (ZFSError txt), st)
      | None \<Rightarrow>
          if versions st arg = None then (Some (ZFSError ''could not find any snapshots to destroy''), st)
          else (None, st\<lparr>versions := (versions st)(arg := None)\<rparr>))"

definition zfsBuildSnapName :: "DatasetPath \<Rightarrow> string \<Rightarrow> string" where
  "zfsBuildSnapName fs name = ToString fs @ ''@'' @ name"

definition zfsBuildBookmarkName :: "DatasetPath \<Rightarrow> string \<Rightarrow> string" where
  "zfsBuildBookmarkName fs name = ToString fs @ ''#'' @ name"

definition ZFSBookmark :: "DatasetPath \<Rightarrow> string \<Rightarrow> string \<Rightarrow> zfs_state \<Rightarrow> error option \<times> zfs_state" where
  "ZFSBookmark fs snapshot bookmark st =
     (let snapname = zfsBuildSnapName fs snapshot;
          bookmarkname = zfsBuildBookmarkName fs bookmark
      in case fault st (CmdBookmark snapname bookmarkname) of
           Some txt \<Rightarrow> (Some (ZFSError txt), st)
         | None \<Rightarrow>
             (case versions st snapname of
                None \<Rightarrow> (Some (ZFSError ''dataset does not exist''), st)
              | Some props \<Rightarrow>
                  if versions st bookmarkname \<noteq> None then (Some (ZFSError ''bookmark exists''), st)
                  else (None, st\<lparr>versions := (versions st)(bookmarkname \<mapsto> props)\<rparr>)))"

section \<open>The replication cursor (zfs package)\<close>

definition ReplicationCursorBookmarkName :: string where
  "ReplicationCursorBookmarkName = ''zrepl_replication_cursor''"

text \<open>
  \<open>ZFSSetReplicationCursor(fs, snapname, expGuid)\<close>. The result is the error (\<open>None\<close> for
  nil) and the state of the volume manager afterwards.
\<close>

definition ZFSSetReplicationCursor ::
  "DatasetPath \<Rightarrow> string \<Rightarrow> 64 word \<Rightarrow> zfs_state \<Rightarrow> error option \<times> zfs_state"
where
  "ZFSSetReplicationCursor fs snapname expGuid st =
     (if Length fs = 0 then (Some (Msg ''filesystem name must not be empty''), st)
      else if length snapname = 0 then (Some (Msg ''snapname must not be empty''), st)
      else
        let snapPath = ToString fs @ ''@'' @ snapname;
            create = (\<lambda>s.
              (case ZFSBookmark fs snapname ReplicationCursorBookmarkName s of
                 (Some e, s') \<Rightarrow> (Some (Wrap ''cannot create bookmark'' e), s')
               | (None, s') \<Rightarrow> (None, s')))
        in case ZFSGetCreateTXGAndGuid st snapPath of
             Inl e \<Rightarrow> (Some (Wrap ''cannot get snapshot createtxg and guid'' e), st)
           | Inr snapProps \<Rightarrow>
               if expGuid \<noteq> Guid snapProps
                 then (Some (Msg ''expected guid != actual guid for snap name''), st)
               else
                 let bookmarkPath = ToString fs @ ''#'' @ ReplicationCursorBookmarkName
                 in case ZFSGetCreateTXGAndGuid st bookmarkPath of
                      Inl (DatasetDoesNotExist p) \<Rightarrow> create st
                    | Inl e \<Rightarrow> (Some (Wrap ''cannot get bookmark txg'' e), st)
                    | Inr bookmarkProps \<Rightarrow>
                        if CreateTXG snapProps < CreateTXG bookmarkProps
                          then (Some (Msg ''cannot can only be advanced, not set back''), st)
                        else if Guid bookmarkProps = Guid snapProps then (None, st)
                        else
                          (case ZFSDestroy bookmarkPath st of
                             (Some e, s1) \<Rightarrow>
                               (Some (Wrap ''cannot destroy current cursor to move it to new'' e), s1)
                           | (None, s1) \<Rightarrow> create s1))"

text \<open>
  An example: filesystem \<open>pool/a\<close> with three snapshots, the cursor being the bookmark of
  \<open>s1b\<close>.
\<close>

definition example_fs :: DatasetPath where
  "example_fs = \<lparr>comps = [''pool'', ''a'']\<rparr>"

definition example_cursor_state :: zfs_state where
  "example_cursor_state =
     \<lparr>versions = [''pool/a@s1'' \<mapsto> \<lparr>CreateTXG = 5, Guid = 100\<rparr>,
                  ''pool/a@s1b'' \<mapsto> \<lparr>CreateTXG = 7, Guid = 150\<rparr>,
                  ''pool/a@s2'' \<mapsto> \<lparr>CreateTXG = 9, Guid = 200\<rparr>,
                  ''pool/a#zrepl_replication_cursor'' \<mapsto> \<lparr>CreateTXG = 7, Guid = 150\<rparr>],
      fault = (\<lambda>c. None)\<rparr>"

section \<open>Send arguments and their validation (zfs/zfs.go)\<close>

text \<open>
  The parsed resume token. Its type is declared in a file that is not among the sources;
  these are the fields \<open>validateCorrespondsToResumeToken\<close> reads.
\<close>

record ResumeToken =
  HasFromGUID :: bool
  HasToGUID :: bool
  FromGUID :: "64 word"
  ToGUID :: "64 word"
  ToName :: string
  RawOK :: bool
  CompressOK :: bool

text \<open>\<open>type ZFSSendArgVersion struct { RelName string; GUID uint64 }\<close>\<close>

record ZFSSendArgVersion =
  RelName :: string
  GUID :: "64 word"

text \<open>
  \<open>type ZFSSendArgs struct { FS string; From, To *ZFSSendArgVersion; Encrypted *NilBool;
  ResumeToken string }\<close>. A nil pointer is \<open>None\<close>; \<open>NilBool\<close> holds one \<open>bool\<close>.
\<close>

record ZFSSendArgs =
  FS :: string
  From :: "ZFSSendArgVersion option"
  To :: "ZFSSendArgVersion option"
  Encrypted :: "bool option"
  ResumeToken :: string

text \<open>
  What validation and sending read from outside the program: the volume manager's versions
  (for \<open>zfs get guid\<close>), the encryption feature check and the \<open>encryption\<close> property of a
  filesystem, the resume token codec (\<open>ParseResumeToken\<close> and the token's \<open>ToNameSplit\<close>,
  whose code is not among the sources and which are therefore taken as they come), the
  creation of the pipe, and the start of \<open>zfs send\<close> with given arguments, which yields the
  reads of its output.
\<close>

record send_env =
  zfs :: zfs_state
  EncryptionCLISupported :: "bool \<times> error option"
  encryptionProp :: "string \<Rightarrow> error + string"
  ParseResumeToken :: "string \<Rightarrow> error + ResumeToken"
  ToNameSplit :: "ResumeToken \<Rightarrow> error + DatasetPath \<times> string"
  pipeWithCapacityHint :: "error option"
  startSend :: "string list \<Rightarrow> error + io_result list"

text \<open>
  A panic is not an error value: it passes every place that wraps or replaces an error.
\<close>

definition Wrapf :: "string \<Rightarrow> error \<Rightarrow> error" where
  "Wrapf txt e = (case e of Panic p \<Rightarrow> Panic p | _ \<Rightarrow> Wrap txt e)"

definition validateZFSFilesystem :: "string \<Rightarrow> error option" where
  "validateZFSFilesystem fs =
     (if length fs < 1 then Some (Msg ''filesystem path must have length > 0'') else None)"

text \<open>\<open>strings.IndexAny(s[0:1], "@#") != 0\<close> for a non-empty \<open>s\<close>.\<close>

definition not_version_prefix :: "string \<Rightarrow> bool" where
  "not_version_prefix s = (hd s \<noteq> CHR ''@'' \<and> hd s \<noteq> CHR ''#'')"

text \<open>
  \<open>ZFSGetGUID\<close>. The deferred function replaces every error by a new \<open>fmt.Errorf\<close> error
  that only quotes the text of the old one, so no error of this function has the type
  \<open>*DatasetDoesNotExist\<close>.
\<close>

definition ZFSGetGUID :: "zfs_state \<Rightarrow> string \<Rightarrow> string \<Rightarrow> error + 64 word" where
  "ZFSGetGUID st fs version =
     (case
        (case validateZFSFilesystem fs of
           Some e \<Rightarrow> Inl e
         | None \<Rightarrow>
             if length version = 0 then Inl (Msg ''version must have non-zero length'')
             else if not_version_prefix version then Inl (Msg ''version does not start with @ or #'')
             else
               (case fault st (CmdGet (fs @ version)) of
                  Some txt \<Rightarrow> Inl (ZFSError txt)
                | None \<Rightarrow>
                    (case versions st (fs @ version) of
                       None \<Rightarrow> Inl (DatasetDoesNotExist (fs @ version))
                     | Some props \<Rightarrow> Inr (Guid props))))
      of Inl e \<Rightarrow> Inl (Wrap ''zfs get guid'' e)
       | Inr g \<Rightarrow> Inr g)"

text \<open>\<open>ZFSGetEncryptionEnabled\<close> (zfs/encryption.go); its errors are rewritten the same way.\<close>

definition ZFSGetEncryptionEnabled :: "send_env \<Rightarrow> string \<Rightarrow> error + bool" where
  "ZFSGetEncryptionEnabled env fs =
     (case
        (case EncryptionCLISupported env of
           (supp, Some e) \<Rightarrow> Inl e
         | (supp, None) \<Rightarrow>
             if \<not> supp then Inr False
             else
               (case validateZFSFilesystem fs of
                  Some e \<Rightarrow> Inl e
                | None \<Rightarrow>
                    (case encryptionProp env fs of
                       Inl e \<Rightarrow> Inl (Wrap ''cannot get `encryption` property'' e)
                     | Inr val \<Rightarrow>
                         if val = [] then Inl (Panic ''zfs get should return a value for `encryption`'')
                         else if val = ''-'' then Inl (Msg ''`encryption` property should never be -'')
                         else if val = ''off'' then Inr False
                         else Inr True)))
      of Inl e \<Rightarrow> Inl (Wrapf ''zfs get encryption enabled'' e)
       | Inr b \<Rightarrow> Inr b)"

text \<open>
  \<open>ZFSSendArgVersion.Validate\<close>. The branch for \<open>*DatasetDoesNotExist\<close> goes on with
  \<open>realGUID = 0\<close>.
\<close>

definition ZFSSendArgVersion_Validate :: "zfs_state \<Rightarrow> ZFSSendArgVersion \<Rightarrow> string \<Rightarrow> error option" where
  "ZFSSendArgVersion_Validate st a fs =
     (if length (RelName a) = 0 then Some (Msg ''`RelName` must not be empty'')
      else if not_version_prefix (RelName a) then Some (Msg ''`RelName` field must start with @ or #'')
      else if fs = [] then Some (Panic fs)
      else
        (case ZFSGetGUID st fs (RelName a) of
           Inl (DatasetDoesNotExist p) \<Rightarrow>
             if 0 \<noteq> GUID a then Some (Msg ''`GUID` field does not match real dataset's GUID'')
             else None
         | Inl e \<Rightarrow> Some e
         | Inr realGUID \<Rightarrow>
             if realGUID \<noteq> GUID a then Some (Msg ''`GUID` field does not match real dataset's GUID'')
             else None))"

text \<open>
  \<open>validateCorrespondsToResumeToken\<close>. Reading \<open>a.To.GUID\<close> or \<open>a.Encrypted.B\<close> through a
  nil pointer panics; \<open>Validate\<close> has excluded both before it calls.
\<close>

definition validateCorrespondsToResumeToken :: "send_env \<Rightarrow> ZFSSendArgs \<Rightarrow> error option" where
  "validateCorrespondsToResumeToken env a =
     (if ResumeToken a = [] then None
      else
        (case ParseResumeToken env (ResumeToken a) of
           Inl e \<Rightarrow> Some e
         | Inr t \<Rightarrow>
             (case ToNameSplit env t of
                Inl e \<Rightarrow> Some e
              | Inr (tokenFS, snapName) \<Rightarrow>
                  if FS a \<noteq> ToString tokenFS
                    then Some (Msg ''filesystem in resume token field `toname` does not match expected value'')
                  else if (From a \<noteq> None) \<noteq> HasFromGUID t then
                    (if HasFromGUID t
                       then Some (Msg ''resume token not expected to be incremental, but `fromguid` is set'')
                     else Some (Msg ''resume token expected to be incremental, but `fromguid` not present''))
                  else if HasFromGUID t \<and>
                      (case From a of None \<Rightarrow> True | Some from \<Rightarrow> FromGUID t \<noteq> GUID from)
                    then (case From a of
                            None \<Rightarrow> Some (Panic ''nil pointer dereference'')
                          | Some from \<Rightarrow> Some (Msg ''resume token `fromguid` != expected''))
                  else if \<not> HasToGUID t then Some (Msg ''resume token does not have `toguid`'')
                  else
                    (case To a of
                       None \<Rightarrow> Some (Panic ''nil pointer dereference'')
                     | Some to \<Rightarrow>
                         if ToGUID t \<noteq> GUID to then Some (Msg ''resume token `toguid` != expected'')
                         else
                           (case Encrypted a of
                              None \<Rightarrow> Some (Panic ''nil pointer dereference'')
                            | Some b \<Rightarrow>
                                if b then
                                  (if \<not> (RawOK t \<and> CompressOK t)
                                     then Some (Msg ''resume token must have `rawok` and `compressok` = true'')
                                   else None)
                                else
                                  (if RawOK t \<or> CompressOK t
                                     then Some (Msg ''resume token must not have `rawok` or `compressok` set'')
                                   else None))))))"

text \<open>\<open>ZFSSendArgs.Validate\<close>\<close>

definition ZFSSendArgs_Validate :: "send_env \<Rightarrow> ZFSSendArgs \<Rightarrow> error option" where
  "ZFSSendArgs_Validate env a =
     (if (case NewDatasetPath (FS a) of Inl e \<Rightarrow> True | Inr dp \<Rightarrow> Length dp = 0)
        then Some (Msg ''`FS` must be a valid non-zero dataset path'')
      else
        (case To a of
           None \<Rightarrow> Some (Msg ''`To` must not be nil'')
         | Some to \<Rightarrow>
             (case ZFSSendArgVersion_Validate (zfs env) to (FS a) of
                Some e \<Rightarrow> Some (Wrapf ''`To` invalid'' e)
              | None \<Rightarrow>
                  (case (case From a of
                           None \<Rightarrow> None
                         | Some from \<Rightarrow> ZFSSendArgVersion_Validate (zfs env) from (FS a)) of
                     Some e \<Rightarrow> Some (Wrapf ''`From` invalid'' e)
                   | None \<Rightarrow>
                       (case Encrypted a of
                          None \<Rightarrow> Some (Wrap ''`Raw` invalid'' (Msg ''must explicitly set `true` or `false`''))
                        | Some b \<Rightarrow>
                            (case ZFSGetEncryptionEnabled env (FS a) of
                               Inl e \<Rightarrow> Some (Wrapf ''cannot check whether filesystem is encrypted'' e)
                             | Inr fsEncrypted \<Rightarrow>
                                 if b \<and> \<not> fsEncrypted
                                   then Some (Msg ''encrypted send requested, but filesystem is not encrypted'')
                                 else if ResumeToken a \<noteq> []
                                   then validateCorrespondsToResumeToken env a
                                 else None))))))"

text \<open>\<open>absVersion\<close> and \<open>buildCommonSendArgs\<close>: the resume token takes precedence.\<close>

definition absVersion :: "string \<Rightarrow> ZFSSendArgVersion \<Rightarrow> error + string" where
  "absVersion fs v =
     (case validateZFSFilesystem fs of
        Some e \<Rightarrow> Inl e
      | None \<Rightarrow> Inr (fs @ RelName v))"

definition buildCommonSendArgs :: "ZFSSendArgs \<Rightarrow> error + string list" where
  "buildCommonSendArgs a =
     (if ResumeToken a \<noteq> [] then Inr [''-t'', ResumeToken a]
      else
        (case Encrypted a of
           None \<Rightarrow> Inl (Panic ''nil pointer dereference'')
         | Some b \<Rightarrow>
             (case To a of
                None \<Rightarrow> Inl (Panic ''nil pointer dereference'')
              | Some to \<Rightarrow>
                  (case absVersion (FS a) to of
                     Inl e \<Rightarrow> Inl e
                   | Inr toV \<Rightarrow>
                       (case (case From a of
                                None \<Rightarrow> Inr []
                              | Some from \<Rightarrow> absVersion (FS a) from) of
                          Inl e \<Rightarrow> Inl e
                        | Inr fromV \<Rightarrow>
                            Inr ((if b then [''-w''] else []) @
                                 (if fromV = [] then [toV] else [''-i'', fromV, toV])))))))"

text \<open>
  \<open>ZFSSend\<close>: validate, build the arguments, create the pipe, start \<open>zfs send\<close>; the result
  is the stream copier over the process's output, or the error (and then no copier).
\<close>

definition ZFSSend :: "send_env \<Rightarrow> ZFSSendArgs \<Rightarrow> error + sendStreamCopier" where
  "ZFSSend env sendArgs =
     (case ZFSSendArgs_Validate env sendArgs of
        Some e \<Rightarrow> Inl (Wrapf ''cannot validate send args'' e)
      | None \<Rightarrow>
          (case buildCommonSendArgs sendArgs of
             Inl e \<Rightarrow> Inl e
           | Inr sargs \<Rightarrow>
               (case pipeWithCapacityHint env of
                  Some e \<Rightarrow> Inl e
                | None \<Rightarrow>
                    (case startSend env (''send'' # sargs) of
                       Inl e \<Rightarrow> Inl (Wrap ''cannot start zfs send command'' e)
                     | Inr stream \<Rightarrow> Inr (newSendStreamCopier stream)))))"

text \<open>
  The correspondence of a parsed token with a send request, in the words of the
  specification (the validator's cross-check): the token's filesystem is the request's;
  the token has a from-GUID exactly when the request has a \<open>From\<close>, and then the two GUIDs
  are equal; the token has a to-GUID and it is the GUID of the request's \<open>To\<close>; for an
  encrypted send the token has both \<open>RawOK\<close> and \<open>CompressOK\<close>, otherwise neither.
\<close>

definition spec_token_corresponds :: "ZFSSendArgs \<Rightarrow> ResumeToken \<Rightarrow> DatasetPath \<Rightarrow> bool" where
  "spec_token_corresponds a t tokenFS \<longleftrightarrow>
     ToString tokenFS = FS a \<and>
     HasFromGUID t = (From a \<noteq> None) \<and>
     (case From a of None \<Rightarrow> True | Some from \<Rightarrow> FromGUID t = GUID from) \<and>
     HasToGUID t \<and>
     (case To a of None \<Rightarrow> False | Some to \<Rightarrow> ToGUID t = GUID to) \<and>
     (case Encrypted a of
        None \<Rightarrow> False
      | Some b \<Rightarrow> if b then RawOK t \<and> CompressOK t else \<not> RawOK t \<and> \<not> CompressOK t)"

text \<open>
  An example: an incremental, unencrypted send of \<open>pool/a\<close> from \<open>@s1\<close> to \<open>@s2\<close> with a
  resume token. The codec of the example reads the token \<open>1-good\<close> as one that describes
  this send, and any other token as one for the filesystem \<open>pool/b\<close>.
\<close>

definition example_send_args :: "string \<Rightarrow> ZFSSendArgs" where
  "example_send_args tok =
     \<lparr>FS = ''pool/a'',
      From = Some \<lparr>RelName = ''@s1'', GUID = 100\<rparr>,
      To = Some \<lparr>RelName = ''@s2'', GUID = 200\<rparr>,
      Encrypted = Some False,
      ResumeToken = tok\<rparr>"

definition example_token :: "string \<Rightarrow> ResumeToken" where
  "example_token toname =
     \<lparr>HasFromGUID = True, HasToGUID = True, FromGUID = 100, ToGUID = 200,
      ToName = toname, RawOK = False, CompressOK = False\<rparr>"

definition example_send_env :: send_env where
  "example_send_env =
     \<lparr>zfs = example_cursor_state,
      EncryptionCLISupported = (False, None),
      encryptionProp = (\<lambda>fs. Inr ''off''),
      ParseResumeToken =
        (\<lambda>s. if s = ''1-good'' then Inr (example_token ''pool/a@s2'')
             else Inr (example_token ''pool/b@s2'')),
      ToNameSplit =
        (\<lambda>t. if ToName t = ''pool/a@s2'' then Inr (\<lparr>comps = [''pool'', ''a'']\<rparr>, ''s2'')
             else Inr (\<lparr>comps = [''pool'', ''b'']\<rparr>, ''s2'')),
      pipeWithCapacityHint = None,
      startSend = (\<lambda>args. Inr [(4, None), (0, Some EOF)])\<rparr>"

section \<open>The sender endpoint (package endpoint)\<close>

text \<open>
  The request and the response of \<open>Send\<close>, with the fields the handler reads and writes.
  The request's fields \<open>From\<close>, \<open>To\<close> and \<open>ResumeToken\<close> carry the prefix \<open>Req\<close> here.
\<close>

record SendReq =
  Filesystem :: string
  ReqFrom :: string
  ReqTo :: string
  ReqResumeToken :: string
  DryRun :: bool

record SendRes =
  ExpectedSize :: "64 word"
  UsedResumeToken :: bool

text \<open>
  \<open>DrySendInfo\<close>: the handler reads \<open>SizeEstimate\<close> only (\<open>-1\<close>: no estimate). An \<open>int64\<close> is
  its two's complement word; the handler only compares and copies it.
\<close>

record DrySendInfo =
  SizeEstimate :: "64 word"

text \<open>
  What the handler calls: the dataset filter of the sender, the volume manager (for
  \<open>ZFSGetGUID\<close>), and the functions of package \<open>zfs\<close> in the form this handler calls them,
  which is not the form of the sources of that package: \<open>ResumeSendSupported()\<close>,
  \<open>ParseResumeToken\<close>, the token's \<open>ValidateCorrespondsToSend(fs, hasFrom, fromGUID,
  toGUID)\<close>, and \<open>ZFSSendDry\<close> and \<open>ZFSSend\<close> with the four strings filesystem, from, to and
  resume token. \<open>semAcquire\<close> is the result of acquiring the send semaphore.
\<close>

record sender_env =
  FSFilter :: "DatasetPath \<Rightarrow> error + bool"
  zfs_st :: zfs_state
  ResumeSendSupported :: "error + bool"
  parseResumeToken :: "string \<Rightarrow> error + ResumeToken"
  validateCorrespondsToSend :: "ResumeToken \<Rightarrow> string \<Rightarrow> bool \<Rightarrow> 64 word \<Rightarrow> 64 word \<Rightarrow> error option"
  semAcquire :: "error option"
  zfsSendDry :: "string \<Rightarrow> string \<Rightarrow> string \<Rightarrow> string \<Rightarrow> error + DrySendInfo"
  zfsSend :: "string \<Rightarrow> string \<Rightarrow> string \<Rightarrow> string \<Rightarrow> error + sendStreamCopier"

definition filterCheckFS :: "sender_env \<Rightarrow> string \<Rightarrow> error + DatasetPath" where
  "filterCheckFS s fs =
     (case NewDatasetPath fs of
        Inl e \<Rightarrow> Inl e
      | Inr dp \<Rightarrow>
          if Length dp = 0 then Inl (Msg ''empty filesystem not allowed'')
          else
            (case FSFilter s dp of
               Inl e \<Rightarrow> Inl e
             | Inr pass \<Rightarrow>
                 if \<not> pass then Inl (Msg ''endpoint does not allow access to filesystem'')
                 else Inr dp))"

text \<open>The closure \<open>validateResumeToken\<close> of \<open>Send\<close>.\<close>

definition validateResumeToken :: "sender_env \<Rightarrow> SendReq \<Rightarrow> error option" where
  "validateResumeToken s r =
     (if ReqResumeToken r = [] then None
      else
        (case ResumeSendSupported s of
           Inl e \<Rightarrow> Some (Wrap ''check for resume send support failed'' e)
         | Inr resumeSupported \<Rightarrow>
             if \<not> resumeSupported then Some (RtNotSupported (Msg ''resumable send not supported''))
             else
               (case parseResumeToken s (ReqResumeToken r) of
                  Inl e \<Rightarrow>
                    if e = ResumeTokenDecodingNotSupported \<or> e = ResumeTokenParsingError
                      then Some (RtNotSupported e)
                    else if e = ResumeTokenCorruptError then Some e
                    else Some (Wrap ''resume token decoding failed'' e)
                | Inr token \<Rightarrow>
                    (case ZFSGetGUID (zfs_st s) (Filesystem r) (ReqTo r) of
                       Inl e \<Rightarrow> Some e
                     | Inr expToGUID \<Rightarrow>
                         (case (if ReqFrom r \<noteq> [] then
                                  (case ZFSGetGUID (zfs_st s) (Filesystem r) (ReqFrom r) of
                                     Inl e \<Rightarrow> Inl e
                                   | Inr g \<Rightarrow> Inr (True, g))
                                else Inr (False, 0)) of
                            Inl e \<Rightarrow> Some e
                          | Inr (expHasFromGUID, expFromGUID) \<Rightarrow>
                              (case validateCorrespondsToSend s token (Filesystem r)
                                      expHasFromGUID expFromGUID expToGUID of
                                 Some e \<Rightarrow>
                                   Some (RtValErr (Wrap ''resume token does not correspond to request send'' e))
                               | None \<Rightarrow> None))))))"

text \<open>
  The statements of \<open>Send\<close> after the \<open>switch\<close>, for a value of \<open>useResumeToken\<close>: acquire
  the semaphore, dry send for the size, build the response, and unless the request is a dry
  run, send. The result is the error, or the response with the stream copier (none for a
  dry run).
\<close>

definition Send_after_switch ::
  "sender_env \<Rightarrow> SendReq \<Rightarrow> string \<Rightarrow> error + SendRes \<times> sendStreamCopier option"
where
  "Send_after_switch s r useResumeToken =
     (case semAcquire s of
        Some e \<Rightarrow> Inl e
      | None \<Rightarrow>
          (case zfsSendDry s (Filesystem r) (ReqFrom r) (ReqTo r) useResumeToken of
             Inl e \<Rightarrow> Inl e
           | Inr si \<Rightarrow>
               let expSize = (if SizeEstimate si \<noteq> - 1 then SizeEstimate si else 0);
                   res = \<lparr>ExpectedSize = expSize, UsedResumeToken = (useResumeToken \<noteq> [])\<rparr>
               in if DryRun r then Inr (res, None)
                  else
                    (case zfsSend s (Filesystem r) (ReqFrom r) (ReqTo r) useResumeToken of
                       Inl e \<Rightarrow> Inl e
                     | Inr streamCopier \<Rightarrow> Inr (res, Some streamCopier))))"

text \<open>
  \<open>Sender.Send\<close>. The \<open>switch\<close> on the type of the validation error has no fall-through:
  \<open>rtValErr\<close> returns the wrapped error, \<open>rtNotSupported\<close> goes on with an empty token, nil
  goes on with the request's token, and any other error is returned.
\<close>

definition Sender_Send :: "sender_env \<Rightarrow> SendReq \<Rightarrow> error + SendRes \<times> sendStreamCopier option" where
  "Sender_Send s r =
     (if Filesystem r = [] then Inl (Msg ''`Filesystems` field in SendReq must not be empty'')
      else if ReqTo r = [] then Inl (Msg ''`To` field in SendReq must not be empty'')
      else if not_version_prefix (ReqTo r)
        then Inl (Msg ''`To` field in SendReq must start with @ or #'')
      else if ReqFrom r \<noteq> [] \<and> not_version_prefix (ReqFrom r)
        then Inl (Msg ''`From` field in SendReq must start with @ or #'')
      else
        (case filterCheckFS s (Filesystem r) of
           Inl e \<Rightarrow> Inl e
         | Inr dp \<Rightarrow>
             (case validateResumeToken s r of
                Some (RtValErr e) \<Rightarrow> Inl e
              | Some (RtNotSupported e) \<Rightarrow> Send_after_switch s r []
              | None \<Rightarrow> Send_after_switch s r (ReqResumeToken r)
              | Some e \<Rightarrow> Inl e)))"



section \<open>The receiver endpoint (package endpoint)\<close>

text \<open>
  \<open>type Receiver struct { rootWithoutClientComponent *zfs.DatasetPath;
  appendClientIdentity bool; recvParentCreationMtx *chainlock.L }\<close>. The lock serialises
  the hierarchy walk; one request at a time is modelled, so it has no field here.
\<close>

record Receiver =
  rootWithoutClientComponent :: DatasetPath
  appendClientIdentity :: bool

text \<open>\<open>type RecvOptions struct { RollbackAndForceRecv bool; SavePartialRecvState bool }\<close>\<close>

record RecvOptions =
  RollbackAndForceRecv :: bool
  SavePartialRecvState :: bool

text \<open>
  Modelled from the spec: the placeholder state of a filesystem (its type and the
  functions that read and write it are in a file of package \<open>zfs\<close> that is not among the
  sources). It has the attributes fs-exists and is-placeholder; a filesystem that does not
  exist is not a placeholder.
\<close>

record FilesystemPlaceholderState =
  FSExists :: bool
  IsPlaceholder :: bool

text \<open>
  The volume manager as the receiver sees it: the filesystems in the order \<open>zfs list\<close>
  gives them, each by its components and with the value of the placeholder property; for
  each filesystem the receive resume token (empty for none) and whether resumable receive
  is supported; for each call of the adapter an error it may fail with; and the calls made
  so far, oldest first.
\<close>

datatype recv_call =
    Call_ListMapping
  | Call_GetPlaceholderState "string list"
  | Call_CreatePlaceholder "string list"
  | Call_SetPlaceholder "string list" bool
  | Call_GetReceiveResumeToken "string list"
  | Call_RecvClearResumeToken string
  | Call_ResumeRecvSupported "string list"
  | Call_Acquire
  | Call_Recv string RecvOptions

record recv_world =
  filesystems :: "(string list \<times> bool) list"
  receive_resume_token :: "string list \<Rightarrow> string"
  resume_recv_supported :: "string list \<Rightarrow> bool"
  failing :: "recv_call \<Rightarrow> error option"
  calls :: "recv_call list"

definition called :: "recv_call \<Rightarrow> recv_world \<Rightarrow> recv_world" where
  "called c w = w\<lparr>calls := calls w @ [c]\<rparr>"

text \<open>
  Modelled from the spec: \<open>ZFSGetFilesystemPlaceholderState\<close>, which is not among the
  sources. It returns the state and an error; with an error the state says that the
  filesystem does not exist.
\<close>

definition ZFSGetFilesystemPlaceholderState ::
  "DatasetPath \<Rightarrow> recv_world \<Rightarrow> (FilesystemPlaceholderState \<times> error option) \<times> recv_world"
where
  "ZFSGetFilesystemPlaceholderState p w =
     (let w' = called (Call_GetPlaceholderState (comps p)) w in
      case failing w (Call_GetPlaceholderState (comps p)) of
        Some e \<Rightarrow> ((\<lparr>FSExists = False, IsPlaceholder = False\<rparr>, Some e), w')
      | None \<Rightarrow>
          (case map_of (filesystems w) (comps p) of
             None \<Rightarrow> ((\<lparr>FSExists = False, IsPlaceholder = False\<rparr>, None), w')
           | Some ph \<Rightarrow> ((\<lparr>FSExists = True, IsPlaceholder = ph\<rparr>, None), w')))"

text \<open>
  Modelled from the spec: \<open>ZFSCreatePlaceholderFilesystem\<close>, which is not among the
  sources. Creating a placeholder creates the filesystem with the placeholder property set
  to true; a filesystem that exists cannot be created.
\<close>

definition ZFSCreatePlaceholderFilesystem :: "DatasetPath \<Rightarrow> recv_world \<Rightarrow> error option \<times> recv_world" where
  "ZFSCreatePlaceholderFilesystem p w =
     (let w' = called (Call_CreatePlaceholder (comps p)) w in
      case failing w (Call_CreatePlaceholder (comps p)) of
        Some e \<Rightarrow> (Some e, w')
      | None \<Rightarrow>
          if map_of (filesystems w) (comps p) \<noteq> None
            then (Some (ZFSError ''dataset already exists''), w')
          else (None, w'\<lparr>filesystems := filesystems w @ [(comps p, True)]\<rparr>))"

text \<open>
  Modelled from the spec: \<open>ZFSSetPlaceholder\<close>, which is not among the sources. It sets the
  placeholder property of an existing filesystem.
\<close>

definition ZFSSetPlaceholder :: "DatasetPath \<Rightarrow> bool \<Rightarrow> recv_world \<Rightarrow> error option \<times> recv_world" where
  "ZFSSetPlaceholder p isPlaceholder w =
     (let w' = called (Call_SetPlaceholder (comps p) isPlaceholder) w in
      case failing w (Call_SetPlaceholder (comps p) isPlaceholder) of
        Some e \<Rightarrow> (Some e, w')
      | None \<Rightarrow>
          if map_of (filesystems w) (comps p) = None
            then (Some (DatasetDoesNotExist (ToString p)), w')
          else (None, w'\<lparr>filesystems :=
                          map (\<lambda>(k, ph). if k = comps p then (k, isPlaceholder) else (k, ph))
                            (filesystems w)\<rparr>))"

text \<open>
  Modelled from the spec: \<open>ZFSListMapping\<close>, which is not among the sources. It returns the
  paths that pass the filter, in the order of the listing; an error of the filter ends it.
\<close>

fun filter_paths ::
  "(DatasetPath \<Rightarrow> error + bool) \<Rightarrow> string list list \<Rightarrow> error + DatasetPath list" where
  "filter_paths flt [] = Inr []"
| "filter_paths flt (k # ks) =
     (case flt \<lparr>comps = k\<rparr> of
        Inl e \<Rightarrow> Inl e
      | Inr pass \<Rightarrow>
          (case filter_paths flt ks of
             Inl e \<Rightarrow> Inl e
           | Inr ps \<Rightarrow> Inr (if pass then \<lparr>comps = k\<rparr> # ps else ps)))"

definition ZFSListMapping ::
  "(DatasetPath \<Rightarrow> error + bool) \<Rightarrow> recv_world \<Rightarrow> (error + DatasetPath list) \<times> recv_world" where
  "ZFSListMapping flt w =
     (let w' = called Call_ListMapping w in
      case failing w Call_ListMapping of
        Some e \<Rightarrow> (Inl e, w')
      | None \<Rightarrow> (filter_paths flt (map fst (filesystems w)), w'))"

text \<open>
  The other calls of the adapter that \<open>Receive\<close> and \<open>ListFilesystems\<close> make:
  \<open>ZFSGetReceiveResumeTokenOrEmptyStringIfNotSupported\<close>, \<open>ZFSRecvClearResumeToken\<close>,
  \<open>ResumeRecvSupported\<close>, the acquisition of the receive semaphore, and \<open>ZFSRecv\<close>. Each is
  recorded and fails or succeeds as the world says. A successful \<open>ZFSRecv\<close> leaves the
  filesystem in existence and keeps the local value of its placeholder property (a new
  filesystem has none).
\<close>

definition ZFSGetReceiveResumeToken :: "DatasetPath \<Rightarrow> recv_world \<Rightarrow> (error + string) \<times> recv_world" where
  "ZFSGetReceiveResumeToken p w =
     (let w' = called (Call_GetReceiveResumeToken (comps p)) w in
      case failing w (Call_GetReceiveResumeToken (comps p)) of
        Some e \<Rightarrow> (Inl e, w')
      | None \<Rightarrow> (Inr (receive_resume_token w (comps p)), w'))"

definition ZFSRecvClearResumeToken :: "string \<Rightarrow> recv_world \<Rightarrow> error option \<times> recv_world" where
  "ZFSRecvClearResumeToken fs w =
     (let w' = called (Call_RecvClearResumeToken fs) w in
      case validateZFSFilesystem fs of
        Some e \<Rightarrow> (Some e, w)
      | None \<Rightarrow> (failing w (Call_RecvClearResumeToken fs), w'))"

definition ResumeRecvSupported :: "DatasetPath \<Rightarrow> recv_world \<Rightarrow> (error + bool) \<times> recv_world" where
  "ResumeRecvSupported p w =
     (let w' = called (Call_ResumeRecvSupported (comps p)) w in
      case failing w (Call_ResumeRecvSupported (comps p)) of
        Some e \<Rightarrow> (Inl e, w')
      | None \<Rightarrow> (Inr (resume_recv_supported w (comps p)), w'))"

definition Acquire :: "recv_world \<Rightarrow> error option \<times> recv_world" where
  "Acquire w = (failing w Call_Acquire, called Call_Acquire w)"

definition ZFSRecv :: "string \<Rightarrow> RecvOptions \<Rightarrow> recv_world \<Rightarrow> error option \<times> recv_world" where
  "ZFSRecv fs opts w =
     (case validateZFSFilesystem fs of
        Some e \<Rightarrow> (Some e, w)
      | None \<Rightarrow>
          (case NewDatasetPath fs of
             Inl e \<Rightarrow> (Some e, w)
           | Inr fsdp \<Rightarrow>
               (let w' = called (Call_Recv fs opts) w in
                case failing w (Call_Recv fs opts) of
                  Some e \<Rightarrow> (Some e, w')
                | None \<Rightarrow>
                    if map_of (filesystems w) (comps fsdp) \<noteq> None then (None, w')
                    else (None, w'\<lparr>filesystems := filesystems w @ [(comps fsdp, False)]\<rparr>))))"

text \<open>\<open>type subroot struct { localRoot *zfs.DatasetPath }\<close> with \<open>Filter\<close> and \<open>MapToLocal\<close>.\<close>

definition subroot_Filter :: "DatasetPath \<Rightarrow> DatasetPath \<Rightarrow> error + bool" where
  "subroot_Filter localRoot p = Inr (HasPrefix p localRoot \<and> \<not> Equal p localRoot)"

definition subroot_MapToLocal :: "DatasetPath \<Rightarrow> string \<Rightarrow> error + DatasetPath" where
  "subroot_MapToLocal localRoot fs =
     (case NewDatasetPath fs of
        Inl e \<Rightarrow> Inl e
      | Inr p \<Rightarrow>
          if Length p = 0 then Inl (Msg ''cannot map empty filesystem'')
          else Inr (Extend localRoot p))"

text \<open>
  \<open>Receiver.ListFilesystems\<close>, for the client root \<open>root\<close> that \<open>clientRootFromCtx\<close> gives.
  The entries of the response carry the prefix \<open>Fs\<close> on two of their fields.
\<close>

record Filesystem_pdu =
  Path :: string
  FsIsPlaceholder :: bool
  FsResumeToken :: string

fun ListFilesystems_loop ::
  "DatasetPath \<Rightarrow> DatasetPath list \<Rightarrow> Filesystem_pdu list \<Rightarrow> recv_world
     \<Rightarrow> (error + Filesystem_pdu list) \<times> recv_world"
where
  "ListFilesystems_loop root [] fss w = (Inr fss, w)"
| "ListFilesystems_loop root (a # as) fss w =
     (case ZFSGetFilesystemPlaceholderState a w of
        ((ph, Some e), w1) \<Rightarrow> (Inl (Wrap ''cannot get placeholder state for fs'' e), w1)
      | ((ph, None), w1) \<Rightarrow>
          if \<not> FSExists ph
            then (Inl (Msg ''inconsistent placeholder state: filesystem must exist in this context''), w1)
          else
            (case ZFSGetReceiveResumeToken a w1 of
               (Inl e, w2) \<Rightarrow> (Inl e, w2)
             | (Inr token, w2) \<Rightarrow>
                 ListFilesystems_loop root as
                   (fss @ [\<lparr>Path = ToString (TrimPrefix a root),
                            FsIsPlaceholder = IsPlaceholder ph,
                            FsResumeToken = token\<rparr>]) w2))"

definition Receiver_ListFilesystems ::
  "DatasetPath \<Rightarrow> recv_world \<Rightarrow> (error + Filesystem_pdu list) \<times> recv_world" where
  "Receiver_ListFilesystems root w =
     (case ZFSListMapping (subroot_Filter root) w of
        (Inl e, w1) \<Rightarrow> (Inl e, w1)
      | (Inr filtered, w1) \<Rightarrow> ListFilesystems_loop root filtered [] w1)"

text \<open>
  Modelled from the spec: the walk of the forest that holds the one path \<open>lp\<close>
  (\<open>NewDatasetPathForest\<close>, \<open>Add\<close> and \<open>WalkTopDown\<close> are not among the sources). It visits
  the ancestors of \<open>lp\<close> top-down, from the pool to \<open>lp\<close>, and goes below a path only when
  the visitor returns true.
\<close>

definition forest_paths :: "DatasetPath \<Rightarrow> DatasetPath list" where
  "forest_paths lp = map (\<lambda>n. \<lparr>comps = take n (comps lp)\<rparr>) [1..<Suc (length (comps lp))]"

fun WalkTopDown :: "(DatasetPath \<Rightarrow> 'st \<Rightarrow> bool \<times> 'st) \<Rightarrow> DatasetPath list \<Rightarrow> 'st \<Rightarrow> 'st" where
  "WalkTopDown visit [] st = st"
| "WalkTopDown visit (v # vs) st =
     (case visit v st of
        (visitChildTree, st') \<Rightarrow> if visitChildTree then WalkTopDown visit vs st' else st')"

text \<open>
  The visitor of \<open>Receive\<close>. Its state is \<open>visitErr\<close> and the world.
\<close>

definition Receive_visit ::
  "Receiver \<Rightarrow> DatasetPath \<Rightarrow> DatasetPath \<Rightarrow> error option \<times> recv_world
     \<Rightarrow> bool \<times> error option \<times> recv_world"
where
  "Receive_visit s lp v st =
     (case st of (visitErr, w) \<Rightarrow>
        if Equal v lp then (False, visitErr, w)
        else
          (case ZFSGetFilesystemPlaceholderState v w of
             ((ph, Some e), w1) \<Rightarrow> (False, Some e, w1)
           | ((ph, None), w1) \<Rightarrow>
               if \<not> FSExists ph then
                 (if HasPrefix (rootWithoutClientComponent s) v then
                    (False,
                     Some (if Length v = 1 then Msg ''pool not imported''
                           else Msg ''root_fs does not exist''),
                     w1)
                  else
                    (case ZFSCreatePlaceholderFilesystem v w1 of
                       (Some e, w2) \<Rightarrow> (False, Some e, w2)
                     | (None, w2) \<Rightarrow> (True, visitErr, w2)))
               else (True, visitErr, w1)))"

definition Receive_walk :: "Receiver \<Rightarrow> DatasetPath \<Rightarrow> recv_world \<Rightarrow> error option \<times> recv_world" where
  "Receive_walk s lp w = WalkTopDown (Receive_visit s lp) (forest_paths lp) (None, w)"

text \<open>
  \<open>Receiver.Receive\<close>, for the client root \<open>root\<close> that \<open>clientRootFromCtx\<close> gives, in
  three parts: the walk, the decision on rollback and placeholder (\<open>Receive_after_walk\<close>),
  and from the clearing of the resume token to \<open>ZFSRecv\<close> (\<open>Receive_stream\<close>). The stream
  is handed to \<open>ZFSRecv\<close> and not looked at before.
\<close>

record ReceiveReq =
  ReceiveFilesystem :: string
  ClearResumeToken :: bool

definition Receive_stream ::
  "ReceiveReq \<Rightarrow> DatasetPath \<Rightarrow> FilesystemPlaceholderState \<Rightarrow> RecvOptions \<Rightarrow> recv_world
     \<Rightarrow> (error + unit) \<times> recv_world"
where
  "Receive_stream req lp ph recvOpts w =
     (case (if ClearResumeToken req \<and> FSExists ph
              then ZFSRecvClearResumeToken (ToString lp) w else (None, w)) of
        (Some e, w1) \<Rightarrow> (Inl (Wrap ''cannot clear resume token'' e), w1)
      | (None, w1) \<Rightarrow>
          (case ResumeRecvSupported lp w1 of
             (Inl e, w2) \<Rightarrow>
               (Inl (Wrap ''cannot determine whether we can use resumable send & recv'' e), w2)
           | (Inr savePartial, w2) \<Rightarrow>
               (case Acquire w2 of
                  (Some e, w3) \<Rightarrow> (Inl e, w3)
                | (None, w3) \<Rightarrow>
                    (case ZFSRecv (ToString lp)
                            (recvOpts\<lparr>SavePartialRecvState := savePartial\<rparr>) w3 of
                       (Some e, w4) \<Rightarrow> (Inl e, w4)
                     | (None, w4) \<Rightarrow> (Inr (), w4)))))"

definition Receive_after_walk ::
  "ReceiveReq \<Rightarrow> DatasetPath \<Rightarrow> recv_world \<Rightarrow> (error + unit) \<times> recv_world" where
  "Receive_after_walk req lp w =
     (case ZFSGetFilesystemPlaceholderState lp w of
        ((ph, getErr), w1) \<Rightarrow>
          let clearPlaceholderProperty = (getErr = None \<and> FSExists ph \<and> IsPlaceholder ph);
              recvOpts = \<lparr>RollbackAndForceRecv = clearPlaceholderProperty,
                          SavePartialRecvState = False\<rparr>
          in
            (case (if clearPlaceholderProperty then ZFSSetPlaceholder lp False w1 else (None, w1)) of
               (Some e, w2) \<Rightarrow>
                 (Inl (Msg ''cannot clear placeholder property for forced receive''), w2)
             | (None, w2) \<Rightarrow> Receive_stream req lp ph recvOpts w2))"

definition Receiver_Receive ::
  "Receiver \<Rightarrow> DatasetPath \<Rightarrow> ReceiveReq \<Rightarrow> recv_world \<Rightarrow> (error + unit) \<times> recv_world" where
  "Receiver_Receive s root req w =
     (case subroot_MapToLocal root (ReceiveFilesystem req) of
        Inl e \<Rightarrow> (Inl e, w)
      | Inr lp \<Rightarrow>
          (case Receive_walk s lp w of
             (Some visitErr, w1) \<Rightarrow> (Inl visitErr, w1)
           | (None, w1) \<Rightarrow> Receive_after_walk req lp w1))"

text \<open>
  An example: the configured root \<open>tank/backups\<close>, the client \<open>alice\<close>, and two states of
  the volume manager, one before anything was received and one that holds the placeholder
  \<open>proj\<close> and the received filesystem \<open>proj/x\<close> of the client.
\<close>

definition example_receiver :: Receiver where
  "example_receiver =
     \<lparr>rootWithoutClientComponent = \<lparr>comps = [''tank'', ''backups'']\<rparr>, appendClientIdentity = True\<rparr>"

definition example_client_root :: DatasetPath where
  "example_client_root = \<lparr>comps = [''tank'', ''backups'', ''alice'']\<rparr>"

definition example_recv_world :: "(string list \<times> bool) list \<Rightarrow> recv_world" where
  "example_recv_world fss =
     \<lparr>filesystems = fss,
      receive_resume_token = (\<lambda>p. []),
      resume_recv_supported = (\<lambda>p. True),
      failing = (\<lambda>c. None),
      calls = []\<rparr>"

definition example_fresh :: "(string list \<times> bool) list" where
  "example_fresh = [([''tank''], False), ([''tank'', ''backups''], False)]"

definition example_populated :: "(string list \<times> bool) list" where
  "example_populated =
     [([''tank''], False), ([''tank'', ''backups''], False),
      ([''tank'', ''backups'', ''alice''], True),
      ([''tank'', ''backups'', ''alice'', ''proj''], True),
      ([''tank'', ''backups'', ''alice'', ''proj'', ''x''], False)]"

text \<open>
  What a walk may change between two states of the world: it creates filesystems, each a
  placeholder strictly below the root and among the visited paths, and it tries to create
  only such paths.
\<close>

definition walk_frame :: "Receiver \<Rightarrow> DatasetPath \<Rightarrow> string list set \<Rightarrow> recv_world \<Rightarrow> recv_world \<Rightarrow> bool" where
  "walk_frame s lp visited w w' \<longleftrightarrow>
     failing w' = failing w \<and>
     receive_resume_token w' = receive_resume_token w \<and>
     resume_recv_supported w' = resume_recv_supported w \<and>
     (\<forall>p. map_of (filesystems w') p \<noteq> map_of (filesystems w) p \<longrightarrow>
        map_of (filesystems w) p = None \<and> map_of (filesystems w') p = Some True \<and>
        strict_prefix (comps (rootWithoutClientComponent s)) p \<and> p \<in> visited \<and> p \<noteq> comps lp) \<and>
     (\<exists>new. calls w' = calls w @ new \<and>
        (\<forall>p. Call_CreatePlaceholder p \<in> set new \<longrightarrow>
           strict_prefix (comps (rootWithoutClientComponent s)) p \<and> p \<in> visited))"


definition example_lp :: DatasetPath where
  "example_lp = \<lparr>comps = [''tank'', ''backups'', ''alice'', ''proj'', ''x'']\<rparr>"

text \<open>
  A request of the example client for \<open>proj\<close>, which is a placeholder in the populated
  state, and that state with a volume manager that refuses to clear the property.
\<close>

definition example_target :: DatasetPath where
  "example_target = \<lparr>comps = [''tank'', ''backups'', ''alice'', ''proj'']\<rparr>"

definition example_receive_req :: ReceiveReq where
  "example_receive_req = \<lparr>ReceiveFilesystem = ''proj'', ClearResumeToken = False\<rparr>"

definition example_refusing_world :: recv_world where
  "example_refusing_world =
     (example_recv_world example_populated)
       \<lparr>failing := (\<lambda>c. if c = Call_SetPlaceholder [''tank'', ''backups'', ''alice'', ''proj''] False
                         then Some (ZFSError ''permission denied'') else None)\<rparr>"

section \<open>The client root (package endpoint)\<close>

text \<open>
  \<open>path.Join\<close> and \<open>path.Clean\<close> of the Go library, which \<open>clientRoot\<close> calls. \<open>Clean\<close> goes
  through the elements between slashes: an empty element and \<open>.\<close> are dropped; \<open>..\<close> removes
  the element before it when there is one that is not \<open>..\<close>, is dropped at the start of a
  rooted path, and is kept otherwise; any other element is kept. The empty result is \<open>.\<close>.
  \<open>Join\<close> of two elements puts a slash between them, leaving out an empty first element,
  and cleans the result; two empty elements give the empty string.
\<close>

fun clean_elems :: "bool \<Rightarrow> string list \<Rightarrow> string list \<Rightarrow> string list" where
  "clean_elems rooted [] out = out"
| "clean_elems rooted (e # es) out =
     (if e = [] \<or> e = ''.'' then clean_elems rooted es out
      else if e = ''..'' then
        (if out \<noteq> [] \<and> last out \<noteq> ''..'' then clean_elems rooted es (butlast out)
         else if \<not> rooted then clean_elems rooted es (out @ [''..''])
         else clean_elems rooted es out)
      else clean_elems rooted es (out @ [e]))"

definition path_Clean :: "string \<Rightarrow> string" where
  "path_Clean p =
     (if p = [] then ''.''
      else
        let rooted = (hd p = CHR ''/'');
            out = clean_elems rooted (Split p (CHR ''/'')) []
        in if rooted then ''/'' @ Join out ''/''
           else if out = [] then ''.''
           else Join out ''/'')"

definition path_Join :: "string \<Rightarrow> string \<Rightarrow> string" where
  "path_Join a b =
     (if length a + length b = 0 then []
      else
        let buf = a;
            buf = (if buf \<noteq> [] \<or> b \<noteq> []
                   then (if buf \<noteq> [] then buf @ ''/'' else buf) @ b
                   else buf)
        in path_Clean buf)"

text \<open>
  \<open>clientRoot\<close> and \<open>Receiver.clientRootFromCtx\<close>. The context either holds a client
  identity or not; a missing identity and an identity that \<open>clientRoot\<close> refuses are panics.
\<close>

definition clientRoot :: "DatasetPath \<Rightarrow> string \<Rightarrow> error + DatasetPath" where
  "clientRoot rootFS clientIdentity =
     (let rootFSLen = Length rootFS;
          clientRootStr = path_Join (ToString rootFS) clientIdentity
      in case NewDatasetPath clientRootStr of
           Inl e \<Rightarrow> Inl e
         | Inr cr \<Rightarrow>
             if rootFSLen + 1 \<noteq> Length cr
               then Inl (Msg ''client identity must be a single ZFS filesystem path component'')
             else Inr cr)"

definition TestClientIdentity :: "DatasetPath \<Rightarrow> string \<Rightarrow> error option" where
  "TestClientIdentity rootFS clientIdentity =
     (case clientRoot rootFS clientIdentity of Inl e \<Rightarrow> Some e | Inr cr \<Rightarrow> None)"

definition clientRootFromCtx :: "Receiver \<Rightarrow> string option \<Rightarrow> error + DatasetPath" where
  "clientRootFromCtx s ctx =
     (if \<not> appendClientIdentity s then Inr (rootWithoutClientComponent s)
      else
        (case ctx of
           None \<Rightarrow> Inl (Panic ''ClientIdentityKey context value must be set'')
         | Some clientIdentity \<Rightarrow>
             (case clientRoot (rootWithoutClientComponent s) clientIdentity of
                Inl e \<Rightarrow>
                  Inl (Panic ''ClientIdentityContextKey must have been validated before invoking Receiver'')
              | Inr cr \<Rightarrow> Inr cr)))"

text \<open>\<open>Receiver.Receive\<close> from the context: the client root, then the receive below it.\<close>

definition Receiver_Receive_ctx ::
  "Receiver \<Rightarrow> string option \<Rightarrow> ReceiveReq \<Rightarrow> recv_world \<Rightarrow> (error + unit) \<times> recv_world" where
  "Receiver_Receive_ctx s ctx req w =
     (case clientRootFromCtx s ctx of
        Inl e \<Rightarrow> (Inl e, w)
      | Inr root \<Rightarrow> Receiver_Receive s root req w)"

text \<open>
  A request of a client whose identity is \<open>../x/y\<close>, for the filesystem \<open>a\<close>.
\<close>

definition example_dotdot_identity :: string where
  "example_dotdot_identity = ''../x/y''"

definition example_dotdot_req :: ReceiveReq where
  "example_dotdot_req = \<lparr>ReceiveFilesystem = ''a'', ClearResumeToken = False\<rparr>"

section \<open>Facts about dataset paths\<close>

lemma Split_not_Nil: "Split s sep \<noteq> []"
  by (induction s) (auto split: list.splits)

lemma Join_Cons: "ws \<noteq> [] \<Longrightarrow> Join (w # ws) sep = w @ sep @ Join ws sep"
  by (cases ws) simp_all

lemma Join_Split: "Join (Split s sep) [sep] = s"
proof (induction s)
  case Nil
  show ?case by simp
next
  case (Cons c cs)
  show ?case
  proof (cases "c = sep")
    case True
    then show ?thesis
      using Cons.IH by (simp add: Join_Cons Split_not_Nil)
  next
    case False
    obtain w ws where sp: "Split cs sep = w # ws"
      using Split_not_Nil [of cs sep] by (cases "Split cs sep") auto
    have "Join ((c # w) # ws) [sep] = c # Join (w # ws) [sep]"
      by (cases ws) simp_all
    with False sp Cons.IH show ?thesis by simp
  qed
qed

lemma HasPrefix_iff: "HasPrefix p pre \<longleftrightarrow> prefix (comps pre) (comps p)"
proof (cases "length (comps pre) > length (comps p)")
  case True
  then show ?thesis
    by (auto simp: HasPrefix_def dest: prefix_length_le)
next
  case False
  then have le: "length (comps pre) \<le> length (comps p)" by simp
  have "list_all (\<lambda>i. comps pre ! i = comps p ! i) [0..<length (comps pre)]
        \<longleftrightarrow> (\<forall>i<length (comps pre). comps pre ! i = comps p ! i)"
    by (auto simp: list_all_iff)
  also have "\<dots> \<longleftrightarrow> take (length (comps pre)) (comps p) = comps pre"
    using le by (subst list_eq_iff_nth_eq) auto
  also have "\<dots> \<longleftrightarrow> prefix (comps pre) (comps p)"
    by (metis append_take_drop_id prefix_def append_eq_conv_conj)
  finally show ?thesis using False by (simp add: HasPrefix_def)
qed

lemma Equal_iff: "Equal p q \<longleftrightarrow> comps p = comps q"
proof (cases "length (comps p) = length (comps q)")
  case True
  have "list_all (\<lambda>i. comps p ! i = comps q ! i) [0..<length (comps p)]
        \<longleftrightarrow> (\<forall>i<length (comps p). comps p ! i = comps q ! i)"
    by (auto simp: list_all_iff)
  also have "\<dots> \<longleftrightarrow> comps p = comps q"
    using True by (subst list_eq_iff_nth_eq) auto
  finally show ?thesis using True by (simp add: Equal_def)
next
  case False
  then show ?thesis by (auto simp: Equal_def)
qed

lemma TrimPrefix_comps:
  "HasPrefix p pre \<Longrightarrow> comps (TrimPrefix p pre) = drop (length (comps pre)) (comps p)"
  by (simp add: TrimPrefix_def list_eq_iff_nth_eq [of _ "drop _ _"])


lemma ContainsAny_FORBIDDEN: "ContainsAny s FORBIDDEN \<longleftrightarrow> set s \<inter> forbidden_chars \<noteq> {}"
  by (auto simp: ContainsAny_def FORBIDDEN_def forbidden_chars_def list_ex_iff)

lemma Split_single: "Split s sep = [w] \<Longrightarrow> w = s"
  using Join_Split [of s sep] by simp

lemma last_Split: "last (Split s sep) = [] \<longleftrightarrow> s = [] \<or> last s = sep"
proof (induction s)
  case Nil
  show ?case by simp
next
  case (Cons c cs)
  obtain w ws where sp: "Split cs sep = w # ws"
    using Split_not_Nil [of cs sep] by (cases "Split cs sep") auto
  show ?case
  proof (cases "c = sep")
    case True
    with Cons.IH show ?thesis by (auto simp: Split_not_Nil)
  next
    case False
    show ?thesis
    proof (cases ws)
      case Nil
      with sp have "w = cs" by (simp add: Split_single)
      with False sp Nil Cons.IH show ?thesis by auto
    next
      case (Cons v vs)
      with False sp Cons.IH show ?thesis by auto
    qed
  qed
qed

lemma suffix_slash: "suffix [c] s \<longleftrightarrow> s \<noteq> [] \<and> last s = c"
  by (cases s rule: rev_cases) (auto simp: suffix_def)

lemma NewDatasetPath_Inr_iff:
  "NewDatasetPath s = Inr p \<longleftrightarrow>
     set s \<inter> forbidden_chars = {} \<and> \<not> suffix ''/'' s \<and>
     p = \<lparr>comps = (if s = [] then [] else Split s (CHR ''/''))\<rparr>"
  by (auto simp: NewDatasetPath_def Let_def ContainsAny_FORBIDDEN last_Split suffix_slash)

text \<open>
  Claim C8. Every string that holds none of the bytes \<open>@ # | TAB < > *\<close> and does not end
  with \<open>/\<close> parses as a dataset path, and the string form of that path is the string itself.
\<close>

theorem NewDatasetPath_ToString_roundtrip:
  assumes "set s \<inter> {CHR ''@'', CHR ''#'', CHR ''|'', CHR 0x09, CHR ''<'', CHR ''>'', CHR ''*''} = {}"
    and "\<not> suffix ''/'' s"
  shows "\<exists>p. NewDatasetPath s = Inr p \<and> ToString p = s"
proof -
  let ?p = "\<lparr>comps = (if s = [] then [] else Split s (CHR ''/''))\<rparr>"
  have "NewDatasetPath s = Inr ?p"
    using assms by (simp add: NewDatasetPath_Inr_iff forbidden_chars_def)
  moreover have "ToString ?p = s"
    by (simp add: ToString_def Join_Split)
  ultimately show ?thesis by blast
qed

theorem NewDatasetPath_ToString_roundtrip_witness:
  "\<exists>p. NewDatasetPath ''zroot/foo bar'' = Inr p \<and> ToString p = ''zroot/foo bar''"
  using NewDatasetPath_ToString_roundtrip [of "''zroot/foo bar''"]
  by (simp add: suffix_slash)

text \<open>
  Claim C9. The claim says that an input with an empty component is refused. The parser
  looks at the last component only: \<open>a//b\<close> is accepted, with an empty second component.
\<close>

theorem NewDatasetPath_accepts_empty_component:
  "NewDatasetPath ''a//b'' = Inr \<lparr>comps = [''a'', [], ''b'']\<rparr> \<and> [] \<in> set [''a'', [], ''b'']"
  by (simp add: NewDatasetPath_def ContainsAny_def FORBIDDEN_def)

text \<open>
  Claim C9, as the code has it. Parsing fails exactly for the inputs that hold one of the
  bytes \<open>@ # | TAB < > *\<close> or end with \<open>/\<close>. A parsed path has the components
  \<open>Split\<close> gives (none for the empty string), and for a non-empty input the last one is not
  empty; an empty first or inner component is not refused.
\<close>

theorem NewDatasetPath_rejects:
  "(isl (NewDatasetPath s) \<longleftrightarrow>
      set s \<inter> {CHR ''@'', CHR ''#'', CHR ''|'', CHR 0x09, CHR ''<'', CHR ''>'', CHR ''*''} \<noteq> {}
      \<or> suffix ''/'' s)
   \<and> (\<forall>p. NewDatasetPath s = Inr p \<longrightarrow>
         comps p = (if s = [] then [] else Split s (CHR ''/'')) \<and>
         (s \<noteq> [] \<longrightarrow> comps p \<noteq> [] \<and> last (comps p) \<noteq> []))"
proof -
  have "isl (NewDatasetPath s) \<longleftrightarrow> \<not> (\<exists>p. NewDatasetPath s = Inr p)"
    by (cases "NewDatasetPath s") auto
  then show ?thesis
    by (auto simp: NewDatasetPath_Inr_iff forbidden_chars_def Split_not_Nil last_Split suffix_slash)
qed

theorem NewDatasetPath_rejects_witness:
  "isl (NewDatasetPath ''a@b'') \<and> isl (NewDatasetPath ''a/b/'') \<and>
   \<not> isl (NewDatasetPath ''/a'')"
  using NewDatasetPath_rejects [of "''a@b''"] NewDatasetPath_rejects [of "''a/b/''"]
    NewDatasetPath_rejects [of "''/a''"]
  by (auto simp: suffix_slash)

section \<open>Facts about the stream copier\<close>

lemma io_Copy_Nil: "ReadCloser src = [] \<Longrightarrow> io_Copy dst src = None"
  by (subst io_Copy.simps) (simp add: recorder_Read_def)

lemma io_Copy_Cons:
  assumes "ReadCloser src = (nr, er) # rest"
  shows "io_Copy dst src =
     (let src' = src\<lparr>ReadCloser := rest, readErr := er\<rparr> in
      if nr > 0 then
        (case dst of
           [] \<Rightarrow> None
         | (nw0, ew0) # dst' \<Rightarrow>
             let invalid = (nw0 < 0 \<or> nr < nw0);
                 nw = (if invalid then 0 else nw0);
                 ew = (if invalid \<and> ew0 = None then Some ErrInvalidWrite else ew0)
             in if ew \<noteq> None then Some (ew, src', dst')
                else if nr \<noteq> nw then Some (Some ErrShortWrite, src', dst')
                else if er \<noteq> None
                  then Some (if er \<noteq> Some EOF then er else None, src', dst')
                else io_Copy dst' src')
      else if er \<noteq> None
        then Some (if er \<noteq> Some EOF then er else None, src', dst)
      else io_Copy dst src')"
  using assms by (subst io_Copy.simps) (simp add: recorder_Read_def Let_def)

lemma io_Copy_last_read:
  "io_Copy dst src = Some (cerr, src', dst') \<Longrightarrow>
     \<exists>done. done \<noteq> [] \<and> ReadCloser src = done @ ReadCloser src' \<and> readErr src' = snd (last done)"
proof (induction "ReadCloser src" arbitrary: src dst)
  case Nil
  then show ?case by (simp add: io_Copy_Nil)
next
  case (Cons x rest)
  obtain nr er where x: "x = (nr, er)" by (cases x)
  let ?s1 = "src\<lparr>ReadCloser := rest, readErr := er\<rparr>"
  have rc: "ReadCloser src = (nr, er) # rest"
    using Cons.hyps(2) x by simp
  have base: "src' = ?s1 \<Longrightarrow> ?case"
    using rc by (intro exI [of _ "[(nr, er)]"]) simp
  have step: ?case if "io_Copy d ?s1 = Some (cerr, src', dst')" for d
  proof -
    have "rest = ReadCloser ?s1" by simp
    from Cons.hyps(1) [OF this that]
    obtain dn where "dn \<noteq> []" "ReadCloser ?s1 = dn @ ReadCloser src'" "readErr src' = snd (last dn)"
      by blast
    then show ?thesis using rc by (intro exI [of _ "(nr, er) # dn"]) simp
  qed
  from Cons.prems have "src' = ?s1 \<or> (\<exists>d. io_Copy d ?s1 = Some (cerr, src', dst'))"
    unfolding io_Copy_Cons [OF rc]
    by (auto simp: Let_def split: if_splits list.splits)
  with base step show ?case by blast
qed


lemma io_Copy_write_error:
  "io_Copy dst src = Some (Some e, src', dst') \<Longrightarrow> readErr src' = None \<Longrightarrow>
     \<exists>wdone nw ew. dst = wdone @ (nw, ew) # dst' \<and>
        (ew = Some e \<or> ew = None \<and> (e = ErrShortWrite \<or> e = ErrInvalidWrite))"
proof (induction "ReadCloser src" arbitrary: src dst)
  case Nil
  then show ?case by (simp add: io_Copy_Nil)
next
  case (Cons x rest)
  obtain nr er where x: "x = (nr, er)" by (cases x)
  let ?s1 = "src\<lparr>ReadCloser := rest, readErr := er\<rparr>"
  have rc: "ReadCloser src = (nr, er) # rest"
    using Cons.hyps(2) x by simp
  have rest: "rest = ReadCloser ?s1" by simp
  show ?case
  proof (cases "nr > 0")
    case False
    with Cons.prems(1) have "(src' = ?s1 \<and> er \<noteq> None) \<or> io_Copy dst ?s1 = Some (Some e, src', dst')"
      unfolding io_Copy_Cons [OF rc] by (auto simp: Let_def split: if_splits)
    with Cons.prems(2) Cons.hyps(1) [OF rest] show ?thesis by auto
  next
    case True
    with Cons.prems(1) obtain nw0 ew0 d where d: "dst = (nw0, ew0) # d"
      unfolding io_Copy_Cons [OF rc] by (auto simp: Let_def split: list.splits)
    from True Cons.prems d
    consider (stop) "dst' = d" "ew0 = Some e \<or> ew0 = None \<and> (e = ErrShortWrite \<or> e = ErrInvalidWrite)"
      | (rec) "io_Copy d ?s1 = Some (Some e, src', dst')"
      unfolding io_Copy_Cons [OF rc] by (auto simp: Let_def split: if_splits)
    then show ?thesis
    proof cases
      case stop
      with d show ?thesis by (intro exI [of _ "[]"]) simp
    next
      case rec
      from Cons.hyps(1) [OF rest rec Cons.prems(2)]
      obtain wdone nw ew where "d = wdone @ (nw, ew) # dst'"
        "ew = Some e \<or> ew = None \<and> (e = ErrShortWrite \<or> e = ErrInvalidWrite)"
        by blast
      with d show ?thesis by (intro exI [of _ "(nw0, ew0) # wdone"]) simp
    qed
  qed
qed

text \<open>
  Claim C7. When \<open>WriteStreamTo\<close> returns, the copy made at least one read, and the
  recorder holds the error of the last one. A copy without error gives no copier error. A
  copy with an error gives a copier error that is a read error exactly when that last
  recorded read error is not nil, and a write error otherwise; in that case a write of the
  sink returned the reported error, or a short or invalid count.
\<close>

theorem WriteStreamTo_error_kind:
  assumes "WriteStreamTo c w = Some (res, c', w')"
  shows "\<exists>cerr rdone.
           io_Copy w (recorder c) = Some (cerr, recorder c', w') \<and>
           rdone \<noteq> [] \<and> ReadCloser (recorder c) = rdone @ ReadCloser (recorder c') \<and>
           readErr (recorder c') = snd (last rdone) \<and>
           (cerr = None \<longrightarrow> res = None) \<and>
           (cerr \<noteq> None \<longrightarrow>
              (\<exists>ce. res = Some ce \<and>
                 (IsReadError ce \<longleftrightarrow> snd (last rdone) \<noteq> None) \<and>
                 (IsWriteError ce \<longleftrightarrow> snd (last rdone) = None) \<and>
                 (IsWriteError ce \<longrightarrow>
                    (\<exists>wdone nw ew. w = wdone @ (nw, ew) # w' \<and>
                       (ew = Some (err ce) \<or>
                        ew = None \<and> (err ce = ErrShortWrite \<or> err ce = ErrInvalidWrite))))))"
proof -
  from assms obtain cerr rec' where
    cp: "io_Copy w (recorder c) = Some (cerr, rec', w')" and
    c': "c' = c\<lparr>recorder := rec'\<rparr>" and
    res: "res = (case cerr of
                   Some e \<Rightarrow>
                     (case readErr rec' of
                        Some re \<Rightarrow> Some \<lparr>isReadErr = True, err = re\<rparr>
                      | None \<Rightarrow> Some \<lparr>isReadErr = False, err = e\<rparr>)
                 | None \<Rightarrow> None)"
    by (auto simp: WriteStreamTo_def split: option.splits)
  from io_Copy_last_read [OF cp] obtain rdone where
    rd: "rdone \<noteq> []" "ReadCloser (recorder c) = rdone @ ReadCloser rec'"
        "readErr rec' = snd (last rdone)"
    by blast
  have wr: "\<exists>wdone nw ew. w = wdone @ (nw, ew) # w' \<and>
              (ew = Some e \<or> ew = None \<and> (e = ErrShortWrite \<or> e = ErrInvalidWrite))"
    if "cerr = Some e" "readErr rec' = None" for e
    using io_Copy_write_error [of w "recorder c" e rec' w'] cp that by simp
  show ?thesis
  proof (intro exI [of _ cerr] exI [of _ rdone] conjI impI)
    show "io_Copy w (recorder c) = Some (cerr, recorder c', w')"
      using cp c' by simp
    show "rdone \<noteq> []" by (rule rd(1))
    show "ReadCloser (recorder c) = rdone @ ReadCloser (recorder c')"
      using rd(2) c' by simp
    show "readErr (recorder c') = snd (last rdone)"
      using rd(3) c' by simp
    show "res = None" if "cerr = None"
      using that res by simp
    show "\<exists>ce. res = Some ce \<and>
                 (IsReadError ce \<longleftrightarrow> snd (last rdone) \<noteq> None) \<and>
                 (IsWriteError ce \<longleftrightarrow> snd (last rdone) = None) \<and>
                 (IsWriteError ce \<longrightarrow>
                    (\<exists>wdone nw ew. w = wdone @ (nw, ew) # w' \<and>
                       (ew = Some (err ce) \<or>
                        ew = None \<and> (err ce = ErrShortWrite \<or> err ce = ErrInvalidWrite))))"
      if "cerr \<noteq> None"
    proof -
      from that obtain e where e: "cerr = Some e" by auto
      show ?thesis
      proof (cases "readErr rec'")
        case None
        with rd(3) have "snd (last rdone) = None" by simp
        with e res None wr [OF e None] show ?thesis
          by (simp add: IsReadError_def IsWriteError_def)
      next
        case (Some re)
        with rd(3) have "snd (last rdone) = Some re" by simp
        with e res Some show ?thesis
          by (simp add: IsReadError_def IsWriteError_def)
      qed
    qed
  qed
qed

theorem WriteStreamTo_error_kind_witness:
  "(\<exists>ce. WriteStreamTo (newSendStreamCopier [(3, None), (2, Some (ZFSError ''cannot open''))])
            [(3, None), (2, None)]
          = Some (Some ce, \<lparr>recorder = \<lparr>ReadCloser = [], readErr = Some (ZFSError ''cannot open'')\<rparr>\<rparr>, [])
          \<and> IsReadError ce \<and> \<not> IsWriteError ce)
   \<and> (\<exists>ce. WriteStreamTo (newSendStreamCopier [(3, None), (2, None)]) [(3, None), (1, None)]
          = Some (Some ce, \<lparr>recorder = \<lparr>ReadCloser = [], readErr = None\<rparr>\<rparr>, [])
          \<and> IsWriteError ce \<and> \<not> IsReadError ce)
   \<and> WriteStreamTo (newSendStreamCopier [(3, None), (0, Some EOF)]) [(3, None)]
          = Some (None, \<lparr>recorder = \<lparr>ReadCloser = [], readErr = Some EOF\<rparr>\<rparr>, [])"
proof -
  let ?c1 = "newSendStreamCopier [(3, None), (2, Some (ZFSError ''cannot open''))]"
  let ?c2 = "newSendStreamCopier [(3, None), (2, None)]"
  let ?c3 = "newSendStreamCopier [(3, None), (0, Some EOF)]"
  have r1: "WriteStreamTo ?c1 [(3, None), (2, None)]
      = Some (Some \<lparr>isReadErr = True, err = ZFSError ''cannot open''\<rparr>,
              \<lparr>recorder = \<lparr>ReadCloser = [], readErr = Some (ZFSError ''cannot open'')\<rparr>\<rparr>, [])"
    by (simp add: WriteStreamTo_def newSendStreamCopier_def io_Copy_Cons)
  have r2: "WriteStreamTo ?c2 [(3, None), (1, None)]
      = Some (Some \<lparr>isReadErr = False, err = ErrShortWrite\<rparr>,
              \<lparr>recorder = \<lparr>ReadCloser = [], readErr = None\<rparr>\<rparr>, [])"
    by (simp add: WriteStreamTo_def newSendStreamCopier_def io_Copy_Cons)
  have r3: "WriteStreamTo ?c3 [(3, None)]
      = Some (None, \<lparr>recorder = \<lparr>ReadCloser = [], readErr = Some EOF\<rparr>\<rparr>, [])"
    by (simp add: WriteStreamTo_def newSendStreamCopier_def io_Copy_Cons)
  from WriteStreamTo_error_kind [OF r1] have "IsReadError \<lparr>isReadErr = True, err = ZFSError ''cannot open''\<rparr>"
    by (auto simp: newSendStreamCopier_def)
  moreover from WriteStreamTo_error_kind [OF r2] have "IsWriteError \<lparr>isReadErr = False, err = ErrShortWrite\<rparr>"
    by (auto simp: newSendStreamCopier_def)
  ultimately show ?thesis
    using r1 r2 r3 by (simp add: IsReadError_def IsWriteError_def)
qed

section \<open>Facts about the replication cursor\<close>

lemma ZFSGetCreateTXGAndGuid_Inr:
  "ZFSGetCreateTXGAndGuid st ds = Inr props \<longleftrightarrow> fault st (CmdGet ds) = None \<and> versions st ds = Some props"
  by (auto simp: ZFSGetCreateTXGAndGuid_def split: option.splits)

lemma snap_path_neq_bookmark_path: "fs @ ''@'' @ a \<noteq> fs @ ''#'' @ b"
  by simp

lemma ZFSSetReplicationCursor_cases:
  assumes "ZFSGetCreateTXGAndGuid st (ToString fs @ ''#'' @ ReplicationCursorBookmarkName) = Inr cursor"
    and "ZFSGetCreateTXGAndGuid st (ToString fs @ ''@'' @ snapname) = Inr snap"
    and "Length fs \<noteq> 0" "snapname \<noteq> []" "expGuid = Guid snap"
  shows "ZFSSetReplicationCursor fs snapname expGuid st =
     (if CreateTXG snap < CreateTXG cursor
        then (Some (Msg ''cannot can only be advanced, not set back''), st)
      else if Guid cursor = Guid snap then (None, st)
      else
        (case ZFSDestroy (ToString fs @ ''#'' @ ReplicationCursorBookmarkName) st of
           (Some e, s1) \<Rightarrow> (Some (Wrap ''cannot destroy current cursor to move it to new'' e), s1)
         | (None, s1) \<Rightarrow>
             (case ZFSBookmark fs snapname ReplicationCursorBookmarkName s1 of
                (Some e, s') \<Rightarrow> (Some (Wrap ''cannot create bookmark'' e), s')
              | (None, s') \<Rightarrow> (None, s'))))"
  using assms by (simp add: ZFSSetReplicationCursor_def Let_def)

lemma ZFSDestroy_ok:
  "ZFSDestroy arg st = (None, s1) \<Longrightarrow> s1 = st\<lparr>versions := (versions st)(arg := None)\<rparr>"
  by (auto simp: ZFSDestroy_def split: option.splits if_splits)

lemma ZFSBookmark_ok:
  "ZFSBookmark fs snapshot bookmark st = (None, s') \<Longrightarrow>
     \<exists>props. versions st (ToString fs @ ''@'' @ snapshot) = Some props \<and>
       s' = st\<lparr>versions := (versions st)(ToString fs @ ''#'' @ bookmark \<mapsto> props)\<rparr>"
  by (auto simp: ZFSBookmark_def Let_def zfsBuildSnapName_def zfsBuildBookmarkName_def
      split: option.splits if_splits)

text \<open>
  Claim C5. Let the filesystem have a cursor bookmark and let the snapshot exist. If the
  snapshot's \<open>createtxg\<close> is lower than the cursor's, setting the cursor fails and the volume
  manager's state is unchanged. If the snapshot's GUID is the cursor's (the cursor is the
  bookmark of this snapshot, so its \<open>createtxg\<close> is not lower) and the call is well formed
  (non-empty filesystem and snapshot name, the expected GUID that of the snapshot), the call
  succeeds and changes nothing. Whenever the call succeeds, the cursor afterwards has the
  snapshot's GUID and a \<open>createtxg\<close> not below the old cursor's.
\<close>

theorem ZFSSetReplicationCursor_monotone:
  assumes "ZFSGetCreateTXGAndGuid st (ToString fs @ ''#'' @ ReplicationCursorBookmarkName) = Inr cursor"
    and "ZFSGetCreateTXGAndGuid st (ToString fs @ ''@'' @ snapname) = Inr snap"
  shows "(CreateTXG snap < CreateTXG cursor \<longrightarrow>
            (\<exists>e. ZFSSetReplicationCursor fs snapname expGuid st = (Some e, st)))
       \<and> (Guid snap = Guid cursor \<and> \<not> CreateTXG snap < CreateTXG cursor \<and>
          Length fs \<noteq> 0 \<and> snapname \<noteq> [] \<and> expGuid = Guid snap \<longrightarrow>
            ZFSSetReplicationCursor fs snapname expGuid st = (None, st))
       \<and> (\<forall>st'. ZFSSetReplicationCursor fs snapname expGuid st = (None, st') \<longrightarrow>
            (\<exists>c. versions st' (ToString fs @ ''#'' @ ReplicationCursorBookmarkName) = Some c \<and>
                 Guid c = Guid snap \<and> CreateTXG cursor \<le> CreateTXG c))"
proof (intro conjI impI allI)
  show "\<exists>e. ZFSSetReplicationCursor fs snapname expGuid st = (Some e, st)"
    if "CreateTXG snap < CreateTXG cursor"
    using assms that by (auto simp: ZFSSetReplicationCursor_def Let_def)
  show "ZFSSetReplicationCursor fs snapname expGuid st = (None, st)"
    if "Guid snap = Guid cursor \<and> \<not> CreateTXG snap < CreateTXG cursor \<and>
        Length fs \<noteq> 0 \<and> snapname \<noteq> [] \<and> expGuid = Guid snap"
    using assms that by (simp add: ZFSSetReplicationCursor_cases)
  show "\<exists>c. versions st' (ToString fs @ ''#'' @ ReplicationCursorBookmarkName) = Some c \<and>
             Guid c = Guid snap \<and> CreateTXG cursor \<le> CreateTXG c"
    if ok: "ZFSSetReplicationCursor fs snapname expGuid st = (None, st')" for st'
  proof -
    let ?bm = "ToString fs @ ''#'' @ ReplicationCursorBookmarkName"
    let ?sn = "ToString fs @ ''@'' @ snapname"
    from ok assms(2) have pre: "Length fs \<noteq> 0" "snapname \<noteq> []" "expGuid = Guid snap"
      by (auto simp: ZFSSetReplicationCursor_def Let_def split: if_splits)
    note eq = ZFSSetReplicationCursor_cases [OF assms pre]
    from ok eq have ge: "\<not> CreateTXG snap < CreateTXG cursor"
      by (auto split: if_splits)
    have vs: "versions st ?bm = Some cursor" "versions st ?sn = Some snap"
      using assms by (simp_all add: ZFSGetCreateTXGAndGuid_Inr)
    show ?thesis
    proof (cases "Guid cursor = Guid snap")
      case True
      with ok eq ge have "st' = st" by simp
      with vs True show ?thesis by simp
    next
      case False
      with ok eq ge obtain s1 where
        d: "ZFSDestroy ?bm st = (None, s1)" and
        b: "ZFSBookmark fs snapname ReplicationCursorBookmarkName s1 = (None, st')"
        by (auto split: prod.splits option.splits)
      from ZFSDestroy_ok [OF d] have s1: "versions s1 ?sn = Some snap"
        using vs(2) by simp
      from ZFSBookmark_ok [OF b] s1 have "versions st' ?bm = Some snap"
        by auto
      with ge show ?thesis by (simp add: not_less)
    qed
  qed
qed

lemmas example_cursor_simps =
  example_cursor_state_def example_fs_def ZFSGetCreateTXGAndGuid_def ToString_def
  ReplicationCursorBookmarkName_def Length_def

theorem ZFSSetReplicationCursor_monotone_witness:
  "(\<exists>e. ZFSSetReplicationCursor example_fs ''s1'' 100 example_cursor_state
           = (Some e, example_cursor_state))
   \<and> ZFSSetReplicationCursor example_fs ''s1b'' 150 example_cursor_state
           = (None, example_cursor_state)
   \<and> (\<exists>st' c. ZFSSetReplicationCursor example_fs ''s2'' 200 example_cursor_state = (None, st')
           \<and> versions st' ''pool/a#zrepl_replication_cursor'' = Some c
           \<and> Guid c = 200 \<and> (7 :: 64 word) \<le> CreateTXG c)"
proof -
  let ?cur = "\<lparr>CreateTXG = 7, Guid = 150\<rparr> :: ZFSPropCreateTxgAndGuidProps"
  have cur: "ZFSGetCreateTXGAndGuid example_cursor_state
               (ToString example_fs @ ''#'' @ ReplicationCursorBookmarkName) = Inr ?cur"
    by (simp add: example_cursor_simps)
  have s1: "ZFSGetCreateTXGAndGuid example_cursor_state (ToString example_fs @ ''@'' @ ''s1'')
              = Inr \<lparr>CreateTXG = 5, Guid = 100\<rparr>"
    by (simp add: example_cursor_simps)
  have s1b: "ZFSGetCreateTXGAndGuid example_cursor_state (ToString example_fs @ ''@'' @ ''s1b'')
              = Inr \<lparr>CreateTXG = 7, Guid = 150\<rparr>"
    by (simp add: example_cursor_simps)
  have s2: "ZFSGetCreateTXGAndGuid example_cursor_state (ToString example_fs @ ''@'' @ ''s2'')
              = Inr \<lparr>CreateTXG = 9, Guid = 200\<rparr>"
    by (simp add: example_cursor_simps)
  obtain r st' where r: "ZFSSetReplicationCursor example_fs ''s2'' 200 example_cursor_state = (r, st')"
    by (cases "ZFSSetReplicationCursor example_fs ''s2'' 200 example_cursor_state")
  have "fst (ZFSSetReplicationCursor example_fs ''s2'' 200 example_cursor_state) = None"
    by (simp add: ZFSSetReplicationCursor_def Let_def ZFSDestroy_def ZFSBookmark_def
        zfsBuildSnapName_def zfsBuildBookmarkName_def example_cursor_simps)
  with r have r2: "ZFSSetReplicationCursor example_fs ''s2'' 200 example_cursor_state = (None, st')"
    by simp
  from ZFSSetReplicationCursor_monotone [OF cur s1, of 100]
    ZFSSetReplicationCursor_monotone [OF cur s1b, of 150]
    ZFSSetReplicationCursor_monotone [OF cur s2, of 200] r2
  show ?thesis
    by (simp add: example_fs_def Length_def ToString_def ReplicationCursorBookmarkName_def)
qed

text \<open>
  Claim C2. \<open>ZFSSetReplicationCursor\<close> compares the snapshot's GUID with the expected GUID
  it is given before it reads or moves the cursor: on a mismatch it fails and the state is
  unchanged. The sender endpoint's \<open>ReplicationCursor\<close> handler calls
  \<open>zfs.ZFSSetReplicationCursor(dp, op.Set.Snapshot)\<close>: its request holds a snapshot name and
  no GUID, so the handler has no expected GUID to pass on.
\<close>

theorem ZFSSetReplicationCursor_checks_guid:
  assumes "ZFSGetCreateTXGAndGuid st (ToString fs @ ''@'' @ snapname) = Inr snap"
    and "expGuid \<noteq> Guid snap"
  shows "\<exists>e. ZFSSetReplicationCursor fs snapname expGuid st = (Some e, st)"
  using assms by (auto simp: ZFSSetReplicationCursor_def Let_def)

theorem ZFSSetReplicationCursor_checks_guid_witness:
  "\<exists>e. ZFSSetReplicationCursor example_fs ''s2'' 100 example_cursor_state
         = (Some e, example_cursor_state)"
proof -
  have s2: "ZFSGetCreateTXGAndGuid example_cursor_state (ToString example_fs @ ''@'' @ ''s2'')
              = Inr \<lparr>CreateTXG = 9, Guid = 200\<rparr>"
    by (simp add: example_cursor_simps)
  from ZFSSetReplicationCursor_checks_guid [OF s2, of 100] show ?thesis by simp
qed

section \<open>Facts about send validation\<close>

lemma validateCorrespondsToResumeToken_split:
  assumes "ResumeToken a \<noteq> []"
    and "ParseResumeToken env (ResumeToken a) = Inr t"
    and "ToNameSplit env t = Inr (tokenFS, snapName)"
  shows "validateCorrespondsToResumeToken env a = None \<longleftrightarrow> spec_token_corresponds a t tokenFS"
proof (cases "From a")
  case None
  show ?thesis
  proof (cases "To a")
    case n: None
    show ?thesis
      using assms None n
      by (simp add: validateCorrespondsToResumeToken_def spec_token_corresponds_def)
  next
    case (Some tov)
    show ?thesis
    proof (cases "Encrypted a")
      case n: None
      show ?thesis
        using assms None Some n
        by (simp add: validateCorrespondsToResumeToken_def spec_token_corresponds_def)
    next
      case (Some b)
      show ?thesis
        using assms None \<open>To a = Some tov\<close> Some
        by (cases b) (auto simp: validateCorrespondsToResumeToken_def spec_token_corresponds_def)
    qed
  qed
next
  case (Some frm)
  show ?thesis
  proof (cases "To a")
    case n: None
    show ?thesis
      using assms Some n
      by (simp add: validateCorrespondsToResumeToken_def spec_token_corresponds_def)
  next
    case tov: (Some tov)
    show ?thesis
    proof (cases "Encrypted a")
      case n: None
      show ?thesis
        using assms Some tov n
        by (simp add: validateCorrespondsToResumeToken_def spec_token_corresponds_def)
    next
      case e: (Some b)
      show ?thesis
        using assms Some tov e
        by (cases b) (auto simp: validateCorrespondsToResumeToken_def spec_token_corresponds_def)
    qed
  qed
qed

lemma validateCorrespondsToResumeToken_None_iff:
  assumes "ResumeToken a \<noteq> []"
  shows "validateCorrespondsToResumeToken env a = None \<longleftrightarrow>
     (\<exists>t tokenFS snapName.
        ParseResumeToken env (ResumeToken a) = Inr t \<and>
        ToNameSplit env t = Inr (tokenFS, snapName) \<and>
        spec_token_corresponds a t tokenFS)"
proof (cases "ParseResumeToken env (ResumeToken a)")
  case (Inl e)
  with assms show ?thesis by (simp add: validateCorrespondsToResumeToken_def)
next
  case (Inr t)
  show ?thesis
  proof (cases "ToNameSplit env t")
    case (Inl e)
    with assms Inr show ?thesis by (simp add: validateCorrespondsToResumeToken_def)
  next
    case r: (Inr pair)
    obtain tokenFS snapName where pair: "pair = (tokenFS, snapName)" by (cases pair)
    from validateCorrespondsToResumeToken_split [OF assms Inr r [unfolded pair]]
    show ?thesis using Inr r pair by simp
  qed
qed

lemma ZFSSendArgs_Validate_token:
  assumes "ResumeToken a \<noteq> []" "ZFSSendArgs_Validate env a = None"
  shows "validateCorrespondsToResumeToken env a = None"
  using assms unfolding ZFSSendArgs_Validate_def
  by (simp split: sum.splits option.splits if_splits)

lemma ZFSSendArgs_Validate_token_error:
  assumes "ResumeToken a \<noteq> []" "validateCorrespondsToResumeToken env a \<noteq> None"
  shows "\<exists>e. ZFSSendArgs_Validate env a = Some e"
  using assms ZFSSendArgs_Validate_token [of a env] by (cases "ZFSSendArgs_Validate env a") auto

lemma ZFSSend_Inr_Validate:
  "ZFSSend env a = Inr sc \<Longrightarrow> ZFSSendArgs_Validate env a = None"
  by (auto simp: ZFSSend_def split: option.splits)

lemma ZFSSend_Validate_error:
  "ZFSSendArgs_Validate env a = Some e \<Longrightarrow> ZFSSend env a = Inl (Wrapf ''cannot validate send args'' e)"
  by (simp add: ZFSSend_def)

text \<open>
  Claim C1. Take send arguments with a non-empty resume token. If \<open>ZFSSend\<close> returns a
  stream copier, the token parses, its filesystem (from \<open>ToName\<close>) yields the string
  \<open>FS\<close>, it has a from-GUID exactly when \<open>From\<close> is given, and then the GUIDs are equal, it
  has a to-GUID equal to the GUID of \<open>To\<close>, and for an encrypted send it has both \<open>RawOK\<close>
  and \<open>CompressOK\<close>, otherwise neither. Conversely, when the parsed token does not
  correspond to the arguments in this sense, validation fails and \<open>ZFSSend\<close> returns that
  failure and no stream copier.
\<close>

theorem ZFSSend_resume_token_corresponds:
  assumes "ResumeToken a \<noteq> []"
  shows "(\<forall>sc. ZFSSend env a = Inr sc \<longrightarrow>
            (\<exists>t tokenFS snapName.
               ParseResumeToken env (ResumeToken a) = Inr t \<and>
               ToNameSplit env t = Inr (tokenFS, snapName) \<and>
               ToString tokenFS = FS a \<and>
               HasFromGUID t = (From a \<noteq> None) \<and>
               (\<forall>from. From a = Some from \<longrightarrow> FromGUID t = GUID from) \<and>
               HasToGUID t \<and>
               (\<exists>to. To a = Some to \<and> ToGUID t = GUID to) \<and>
               (\<exists>b. Encrypted a = Some b \<and>
                    (if b then RawOK t \<and> CompressOK t else \<not> RawOK t \<and> \<not> CompressOK t))))
       \<and> (\<forall>t tokenFS snapName.
            ParseResumeToken env (ResumeToken a) = Inr t \<and>
            ToNameSplit env t = Inr (tokenFS, snapName) \<and>
            \<not> spec_token_corresponds a t tokenFS \<longrightarrow>
            (\<exists>e. ZFSSendArgs_Validate env a = Some e \<and>
                 ZFSSend env a = Inl (Wrapf ''cannot validate send args'' e)))"
proof (intro conjI allI impI)
  fix sc
  assume "ZFSSend env a = Inr sc"
  then have "validateCorrespondsToResumeToken env a = None"
    using assms by (simp add: ZFSSend_Inr_Validate ZFSSendArgs_Validate_token)
  then obtain t tokenFS snapName where
    "ParseResumeToken env (ResumeToken a) = Inr t"
    "ToNameSplit env t = Inr (tokenFS, snapName)"
    "spec_token_corresponds a t tokenFS"
    using validateCorrespondsToResumeToken_None_iff [OF assms] by blast
  then show "\<exists>t tokenFS snapName.
               ParseResumeToken env (ResumeToken a) = Inr t \<and>
               ToNameSplit env t = Inr (tokenFS, snapName) \<and>
               ToString tokenFS = FS a \<and>
               HasFromGUID t = (From a \<noteq> None) \<and>
               (\<forall>from. From a = Some from \<longrightarrow> FromGUID t = GUID from) \<and>
               HasToGUID t \<and>
               (\<exists>to. To a = Some to \<and> ToGUID t = GUID to) \<and>
               (\<exists>b. Encrypted a = Some b \<and>
                    (if b then RawOK t \<and> CompressOK t else \<not> RawOK t \<and> \<not> CompressOK t))"
    unfolding spec_token_corresponds_def
    by (intro exI [of _ t] exI [of _ tokenFS] exI [of _ snapName])
       (cases "From a"; cases "To a"; cases "Encrypted a"; simp)
next
  fix t tokenFS snapName
  assume h: "ParseResumeToken env (ResumeToken a) = Inr t \<and>
            ToNameSplit env t = Inr (tokenFS, snapName) \<and>
            \<not> spec_token_corresponds a t tokenFS"
  then have "validateCorrespondsToResumeToken env a \<noteq> None"
    using validateCorrespondsToResumeToken_None_iff [OF assms, of env] by auto
  then obtain e where "ZFSSendArgs_Validate env a = Some e"
    using ZFSSendArgs_Validate_token_error [OF assms] by blast
  then show "\<exists>e. ZFSSendArgs_Validate env a = Some e \<and>
                 ZFSSend env a = Inl (Wrapf ''cannot validate send args'' e)"
    by (simp add: ZFSSend_Validate_error)
qed


lemmas example_send_simps =
  example_send_env_def example_send_args_def example_token_def example_cursor_state_def
  ZFSSend_def ZFSSendArgs_Validate_def ZFSSendArgVersion_Validate_def ZFSGetGUID_def
  ZFSGetEncryptionEnabled_def validateCorrespondsToResumeToken_def validateZFSFilesystem_def
  not_version_prefix_def buildCommonSendArgs_def absVersion_def NewDatasetPath_def
  ContainsAny_def FORBIDDEN_def Length_def ToString_def Wrapf_def

theorem ZFSSend_resume_token_corresponds_witness:
  "(\<exists>sc t tokenFS snapName.
      ZFSSend example_send_env (example_send_args ''1-good'') = Inr sc \<and>
      ParseResumeToken example_send_env ''1-good'' = Inr t \<and>
      ToNameSplit example_send_env t = Inr (tokenFS, snapName) \<and>
      ToString tokenFS = ''pool/a'' \<and> HasFromGUID t \<and> FromGUID t = 100 \<and>
      HasToGUID t \<and> ToGUID t = 200 \<and> \<not> RawOK t \<and> \<not> CompressOK t)
   \<and> (\<exists>e. ZFSSend example_send_env (example_send_args ''1-evil'')
             = Inl (Wrapf ''cannot validate send args'' e))"
proof -
  let ?good = "example_send_args ''1-good''" and ?evil = "example_send_args ''1-evil''"
  have tok: "ResumeToken ?good \<noteq> []" "ResumeToken ?evil \<noteq> []"
    by (simp_all add: example_send_args_def)
  have sent: "ZFSSend example_send_env ?good = Inr (newSendStreamCopier [(4, None), (0, Some EOF)])"
    by (simp add: example_send_simps)
  have evil: "ParseResumeToken example_send_env (ResumeToken ?evil) = Inr (example_token ''pool/b@s2'')
      \<and> ToNameSplit example_send_env (example_token ''pool/b@s2'') = Inr (\<lparr>comps = [''pool'', ''b'']\<rparr>, ''s2'')
      \<and> \<not> spec_token_corresponds ?evil (example_token ''pool/b@s2'') \<lparr>comps = [''pool'', ''b'']\<rparr>"
    by (simp add: example_send_env_def example_send_args_def example_token_def
        spec_token_corresponds_def ToString_def)
  from ZFSSend_resume_token_corresponds [OF tok(1), of example_send_env] sent
  have "\<exists>t tokenFS snapName.
      ParseResumeToken example_send_env ''1-good'' = Inr t \<and>
      ToNameSplit example_send_env t = Inr (tokenFS, snapName) \<and>
      ToString tokenFS = ''pool/a'' \<and> HasFromGUID t \<and> FromGUID t = 100 \<and>
      HasToGUID t \<and> ToGUID t = 200 \<and> \<not> RawOK t \<and> \<not> CompressOK t"
    by (auto simp: example_send_args_def)
  moreover from ZFSSend_resume_token_corresponds [OF tok(2), of example_send_env] evil
  have "\<exists>e. ZFSSend example_send_env ?evil = Inl (Wrapf ''cannot validate send args'' e)"
    by blast
  ultimately show ?thesis using sent by blast
qed

section \<open>Facts about the sender endpoint\<close>

lemma Sender_Send_reached:
  assumes "Filesystem r \<noteq> []" "ReqTo r \<noteq> []" "\<not> not_version_prefix (ReqTo r)"
    and "ReqFrom r = [] \<or> \<not> not_version_prefix (ReqFrom r)"
    and "filterCheckFS s (Filesystem r) = Inr dp"
  shows "Sender_Send s r =
     (case validateResumeToken s r of
        Some (RtValErr e) \<Rightarrow> Inl e
      | Some (RtNotSupported e) \<Rightarrow> Send_after_switch s r []
      | None \<Rightarrow> Send_after_switch s r (ReqResumeToken r)
      | Some e \<Rightarrow> Inl e)"
  using assms by (auto simp: Sender_Send_def)






text \<open>
  The same handler refuses a request whose token does not pass
  \<open>ValidateCorrespondsToSend\<close>: the error is returned, and no response and no stream.
\<close>

lemma Sender_Send_token_mismatch_refused:
  assumes "Filesystem r \<noteq> []" "ReqTo r \<noteq> []" "\<not> not_version_prefix (ReqTo r)"
    and "ReqFrom r = [] \<or> \<not> not_version_prefix (ReqFrom r)"
    and "filterCheckFS s (Filesystem r) = Inr dp"
    and "validateResumeToken s r = Some (RtValErr e)"
  shows "Sender_Send s r = Inl e"
  using Sender_Send_reached [OF assms(1-5)] assms(6) by simp

section \<open>Facts about the receiver endpoint\<close>

lemma subroot_Filter_eq:
  "subroot_Filter root p = Inr (strict_prefix (comps root) (comps p))"
  by (auto simp: subroot_Filter_def HasPrefix_iff Equal_iff strict_prefix_def)

lemma filter_paths_subroot:
  "filter_paths (subroot_Filter root) ks
     = Inr (map (\<lambda>k. \<lparr>comps = k\<rparr>) (filter (strict_prefix (comps root)) ks))"
  by (induction ks) (simp_all add: subroot_Filter_eq)

lemma calls_called [simp]: "calls (called c w) = calls w @ [c]"
  by (simp add: called_def)

lemma filesystems_called [simp]: "filesystems (called c w) = filesystems w"
  by (simp add: called_def)

lemma failing_called [simp]: "failing (called c w) = failing w"
  by (simp add: called_def)

lemma ZFSGetFilesystemPlaceholderState_world:
  "snd (ZFSGetFilesystemPlaceholderState p w) = called (Call_GetPlaceholderState (comps p)) w"
  by (simp add: ZFSGetFilesystemPlaceholderState_def Let_def split: option.splits)

lemma ZFSGetReceiveResumeToken_world:
  "snd (ZFSGetReceiveResumeToken p w) = called (Call_GetReceiveResumeToken (comps p)) w"
  by (simp add: ZFSGetReceiveResumeToken_def Let_def split: option.splits)

lemma ListFilesystems_loop_inv:
  "ListFilesystems_loop root as fss w = (res, w') \<Longrightarrow>
     (\<exists>new. calls w' = calls w @ new \<and>
        (\<forall>k. Call_GetPlaceholderState k \<in> set new \<longrightarrow> k \<in> comps ` set as)) \<and>
     (\<forall>out. res = Inr out \<longrightarrow>
        (\<exists>entries. out = fss @ entries \<and>
           map Path entries = map (\<lambda>a. ToString (TrimPrefix a root)) as))"
proof (induction as arbitrary: fss w)
  case Nil
  then show ?case by auto
next
  case (Cons a as)
  obtain ph e1 w1 where g: "ZFSGetFilesystemPlaceholderState a w = ((ph, e1), w1)"
    by (metis surj_pair)
  have w1: "w1 = called (Call_GetPlaceholderState (comps a)) w"
    using ZFSGetFilesystemPlaceholderState_world [of a w] g by simp
  show ?case
  proof (cases "e1 = None \<and> FSExists ph")
    case False
    with Cons.prems g w1 show ?thesis
      by (auto split: option.splits if_splits)
  next
    case True
    obtain t w2 where r: "ZFSGetReceiveResumeToken a w1 = (t, w2)"
      by (metis surj_pair)
    have w2: "w2 = called (Call_GetReceiveResumeToken (comps a)) w1"
      using ZFSGetReceiveResumeToken_world [of a w1] r by simp
    show ?thesis
    proof (cases t)
      case (Inl e)
      with Cons.prems g r True w1 w2 show ?thesis by auto
    next
      case (Inr token)
      let ?f = "\<lparr>Path = ToString (TrimPrefix a root), FsIsPlaceholder = IsPlaceholder ph,
                 FsResumeToken = token\<rparr>"
      from Cons.prems g r True Inr
      have rec: "ListFilesystems_loop root as (fss @ [?f]) w2 = (res, w')" by auto
      from Cons.IH [OF rec] obtain new where
        n: "calls w' = calls w2 @ new"
           "\<forall>k. Call_GetPlaceholderState k \<in> set new \<longrightarrow> k \<in> comps ` set as" and
        o: "\<forall>out. res = Inr out \<longrightarrow>
              (\<exists>entries. out = (fss @ [?f]) @ entries \<and>
                 map Path entries = map (\<lambda>a. ToString (TrimPrefix a root)) as)"
        by blast
      have "calls w' = calls w @
              (Call_GetPlaceholderState (comps a) # Call_GetReceiveResumeToken (comps a) # new)"
        using n(1) w1 w2 by simp
      moreover have "\<forall>k. Call_GetPlaceholderState k \<in>
              set (Call_GetPlaceholderState (comps a) # Call_GetReceiveResumeToken (comps a) # new)
              \<longrightarrow> k \<in> comps ` set (a # as)"
        using n(2) by auto
      moreover have "\<forall>out. res = Inr out \<longrightarrow>
              (\<exists>entries. out = fss @ entries \<and>
                 map Path entries = map (\<lambda>a. ToString (TrimPrefix a root)) (a # as))"
      proof (intro allI impI)
        fix out assume "res = Inr out"
        with o obtain entries where "out = (fss @ [?f]) @ entries"
          "map Path entries = map (\<lambda>a. ToString (TrimPrefix a root)) as" by blast
        then show "\<exists>entries. out = fss @ entries \<and>
                 map Path entries = map (\<lambda>a. ToString (TrimPrefix a root)) (a # as)"
          by (intro exI [of _ "?f # entries"]) simp
      qed
      ultimately show ?thesis by blast
    qed
  qed
qed

text \<open>
  Claim C10. The filter of the receiver passes a path exactly when the client root is a
  prefix of it and it is not the client root. Hence in \<open>ListFilesystems\<close> the placeholder
  state is read only for listed filesystems strictly below the client root, never for the
  client root itself, and every entry of the response is such a filesystem with the client
  root trimmed off.
\<close>

theorem subroot_Filter_strict_descendants:
  "subroot_Filter root p = Inr (prefix (comps root) (comps p) \<and> comps p \<noteq> comps root)
   \<and> (\<forall>res w'. Receiver_ListFilesystems root w = (res, w') \<longrightarrow>
        (\<exists>new. calls w' = calls w @ new \<and>
           Call_GetPlaceholderState (comps root) \<notin> set new \<and>
           (\<forall>k. Call_GetPlaceholderState k \<in> set new \<longrightarrow>
                 strict_prefix (comps root) k \<and> k \<in> fst ` set (filesystems w))) \<and>
        (\<forall>out. res = Inr out \<longrightarrow>
           (\<forall>f \<in> set out. \<exists>k \<in> fst ` set (filesystems w).
              strict_prefix (comps root) k \<and>
              Path f = ToString \<lparr>comps = drop (length (comps root)) k\<rparr>)))"
proof (rule conjI)
  show "subroot_Filter root p = Inr (prefix (comps root) (comps p) \<and> comps p \<noteq> comps root)"
    by (auto simp: subroot_Filter_eq strict_prefix_def)
next
  have "(\<exists>new. calls w' = calls w @ new \<and>
           Call_GetPlaceholderState (comps root) \<notin> set new \<and>
           (\<forall>k. Call_GetPlaceholderState k \<in> set new \<longrightarrow>
                 strict_prefix (comps root) k \<and> k \<in> fst ` set (filesystems w))) \<and>
        (\<forall>out. res = Inr out \<longrightarrow>
           (\<forall>f \<in> set out. \<exists>k \<in> fst ` set (filesystems w).
              strict_prefix (comps root) k \<and>
              Path f = ToString \<lparr>comps = drop (length (comps root)) k\<rparr>))"
    if lf: "Receiver_ListFilesystems root w = (res, w')" for res w'
  proof (rule conjI)
  let ?as = "map (\<lambda>k. \<lparr>comps = k\<rparr>) (filter (strict_prefix (comps root)) (map fst (filesystems w)))"
  let ?w1 = "called Call_ListMapping w"
  have as: "\<forall>a \<in> set ?as. strict_prefix (comps root) (comps a) \<and> comps a \<in> fst ` set (filesystems w)"
    by auto
  show "\<exists>new. calls w' = calls w @ new \<and>
           Call_GetPlaceholderState (comps root) \<notin> set new \<and>
           (\<forall>k. Call_GetPlaceholderState k \<in> set new \<longrightarrow>
                 strict_prefix (comps root) k \<and> k \<in> fst ` set (filesystems w))"
  proof (cases "failing w Call_ListMapping")
    case (Some e)
    with lf have "w' = ?w1"
      by (simp add: Receiver_ListFilesystems_def ZFSListMapping_def Let_def)
    then show ?thesis by (intro exI [of _ "[Call_ListMapping]"]) simp
  next
    case None
    with lf have loop: "ListFilesystems_loop root ?as [] ?w1 = (res, w')"
      by (simp add: Receiver_ListFilesystems_def ZFSListMapping_def Let_def filter_paths_subroot)
    from ListFilesystems_loop_inv [OF loop] obtain new where
      n: "calls w' = calls ?w1 @ new"
         "\<forall>k. Call_GetPlaceholderState k \<in> set new \<longrightarrow> k \<in> comps ` set ?as"
      by blast
    have "strict_prefix (comps root) k \<and> k \<in> fst ` set (filesystems w)"
      if "Call_GetPlaceholderState k \<in> set new" for k
    proof -
      from n(2) that obtain a where "a \<in> set ?as" "k = comps a" by blast
      with as show ?thesis by blast
    qed
    then have "\<forall>k. Call_GetPlaceholderState k \<in> set (Call_ListMapping # new) \<longrightarrow>
            strict_prefix (comps root) k \<and> k \<in> fst ` set (filesystems w)"
      by simp
    moreover from this have "Call_GetPlaceholderState (comps root) \<notin> set (Call_ListMapping # new)"
      by (auto simp: strict_prefix_def)
    ultimately show ?thesis
      using n(1) by (intro exI [of _ "Call_ListMapping # new"]) simp
  qed
  show "\<forall>out. res = Inr out \<longrightarrow>
           (\<forall>f \<in> set out. \<exists>k \<in> fst ` set (filesystems w).
              strict_prefix (comps root) k \<and>
              Path f = ToString \<lparr>comps = drop (length (comps root)) k\<rparr>)"
  proof (intro allI impI ballI)
    fix out f
    assume out: "res = Inr out" and f: "f \<in> set out"
    with lf have none: "failing w Call_ListMapping = None"
      by (auto simp: Receiver_ListFilesystems_def ZFSListMapping_def Let_def split: option.splits)
    with lf have loop: "ListFilesystems_loop root ?as [] ?w1 = (res, w')"
      by (simp add: Receiver_ListFilesystems_def ZFSListMapping_def Let_def filter_paths_subroot)
    from ListFilesystems_loop_inv [OF loop] out
    have paths: "map Path out = map (\<lambda>a. ToString (TrimPrefix a root)) ?as"
      by auto
    from f have "Path f \<in> set (map Path out)" by simp
    with paths obtain a where a: "a \<in> set ?as" "Path f = ToString (TrimPrefix a root)"
      by auto
    from a(1) as have sp: "strict_prefix (comps root) (comps a)" "comps a \<in> fst ` set (filesystems w)"
      by blast+
    then have "HasPrefix a root" by (simp add: HasPrefix_iff strict_prefix_def)
    then have "TrimPrefix a root = \<lparr>comps = drop (length (comps root)) (comps a)\<rparr>"
      using TrimPrefix_comps [of a root] by (cases "TrimPrefix a root") simp
    with a(2) sp show "\<exists>k \<in> fst ` set (filesystems w).
              strict_prefix (comps root) k \<and>
              Path f = ToString \<lparr>comps = drop (length (comps root)) k\<rparr>"
      by (intro bexI [of _ "comps a"]) simp_all
  qed
  qed
  then show "\<forall>res w'. Receiver_ListFilesystems root w = (res, w') \<longrightarrow>
        (\<exists>new. calls w' = calls w @ new \<and>
           Call_GetPlaceholderState (comps root) \<notin> set new \<and>
           (\<forall>k. Call_GetPlaceholderState k \<in> set new \<longrightarrow>
                 strict_prefix (comps root) k \<and> k \<in> fst ` set (filesystems w))) \<and>
        (\<forall>out. res = Inr out \<longrightarrow>
           (\<forall>f \<in> set out. \<exists>k \<in> fst ` set (filesystems w).
              strict_prefix (comps root) k \<and>
              Path f = ToString \<lparr>comps = drop (length (comps root)) k\<rparr>))"
    by blast
qed


lemmas example_recv_simps =
  example_recv_world_def example_populated_def example_fresh_def example_client_root_def
  example_receiver_def

theorem subroot_Filter_strict_descendants_witness:
  "subroot_Filter example_client_root example_client_root = Inr False
   \<and> subroot_Filter example_client_root \<lparr>comps = [''tank'', ''backups'']\<rparr> = Inr False
   \<and> subroot_Filter example_client_root \<lparr>comps = [''tank'', ''backups'', ''alice'', ''proj'']\<rparr> = Inr True
   \<and> (\<exists>out w'. Receiver_ListFilesystems example_client_root (example_recv_world example_populated)
                  = (Inr out, w')
         \<and> map Path out = [''proj'', ''proj/x'']
         \<and> Call_GetPlaceholderState (comps example_client_root) \<notin> set (calls w'))"
proof -
  let ?w = "example_recv_world example_populated"
  obtain res w' where r: "Receiver_ListFilesystems example_client_root ?w = (res, w')"
    by (metis surj_pair)
  have ev: "fst (Receiver_ListFilesystems example_client_root ?w)
      = Inr [\<lparr>Path = ''proj'', FsIsPlaceholder = True, FsResumeToken = []\<rparr>,
             \<lparr>Path = ''proj/x'', FsIsPlaceholder = False, FsResumeToken = []\<rparr>]"
    by (simp add: Receiver_ListFilesystems_def ZFSListMapping_def Let_def subroot_Filter_def
        HasPrefix_def Equal_def ZFSGetFilesystemPlaceholderState_def ZFSGetReceiveResumeToken_def
        called_def TrimPrefix_def ToString_def example_recv_simps)
  have c0: "calls ?w = []" by (simp add: example_recv_world_def)
  note t = subroot_Filter_strict_descendants [of example_client_root _ ?w]
  from t [of example_client_root] t [of "\<lparr>comps = [''tank'', ''backups'']\<rparr>"]
    t [of "\<lparr>comps = [''tank'', ''backups'', ''alice'', ''proj'']\<rparr>"]
  have f: "subroot_Filter example_client_root example_client_root = Inr False"
    "subroot_Filter example_client_root \<lparr>comps = [''tank'', ''backups'']\<rparr> = Inr False"
    "subroot_Filter example_client_root \<lparr>comps = [''tank'', ''backups'', ''alice'', ''proj'']\<rparr> = Inr True"
    by (simp_all add: example_client_root_def)
  from t [of example_client_root] r c0
  have "Call_GetPlaceholderState (comps example_client_root) \<notin> set (calls w')"
    by auto
  with f r ev show ?thesis by simp
qed

section \<open>Facts about the placeholder walk\<close>

text \<open>One visit of the walk.\<close>

lemma ZFSCreatePlaceholderFilesystem_cases:
  "ZFSCreatePlaceholderFilesystem p w = (r, w') \<Longrightarrow>
     failing w' = failing w \<and> calls w' = calls w @ [Call_CreatePlaceholder (comps p)] \<and>
     receive_resume_token w' = receive_resume_token w \<and>
     resume_recv_supported w' = resume_recv_supported w \<and>
     (case r of
        Some e \<Rightarrow> filesystems w' = filesystems w
      | None \<Rightarrow> map_of (filesystems w) (comps p) = None \<and>
                 filesystems w' = filesystems w @ [(comps p, True)])"
  by (auto simp: ZFSCreatePlaceholderFilesystem_def Let_def called_def split: option.splits if_splits)

lemma ZFSGetFilesystemPlaceholderState_cases:
  "ZFSGetFilesystemPlaceholderState p w = ((ph, e), w') \<Longrightarrow>
     w' = called (Call_GetPlaceholderState (comps p)) w \<and>
     e = failing w (Call_GetPlaceholderState (comps p)) \<and>
     (e = None \<longrightarrow> FSExists ph = (map_of (filesystems w) (comps p) \<noteq> None) \<and>
        (\<forall>b. map_of (filesystems w) (comps p) = Some b \<longrightarrow> IsPlaceholder ph = b))"
  by (auto simp: ZFSGetFilesystemPlaceholderState_def Let_def split: option.splits)

lemma walk_frame_refl: "walk_frame s lp V w w"
  by (simp add: walk_frame_def)

lemma walk_frame_mono: "walk_frame s lp V w w' \<Longrightarrow> V \<subseteq> V' \<Longrightarrow> walk_frame s lp V' w w'"
  unfolding walk_frame_def by blast

lemma walk_frame_trans:
  assumes "walk_frame s lp V w w1" "walk_frame s lp V w1 w2"
  shows "walk_frame s lp V w w2"
proof -
  from assms obtain n1 n2 where
    n: "calls w1 = calls w @ n1" "calls w2 = calls w1 @ n2"
       "\<forall>p. Call_CreatePlaceholder p \<in> set n1 \<longrightarrow>
           strict_prefix (comps (rootWithoutClientComponent s)) p \<and> p \<in> V"
       "\<forall>p. Call_CreatePlaceholder p \<in> set n2 \<longrightarrow>
           strict_prefix (comps (rootWithoutClientComponent s)) p \<and> p \<in> V"
    unfolding walk_frame_def by blast
  have c: "\<exists>new. calls w2 = calls w @ new \<and>
        (\<forall>p. Call_CreatePlaceholder p \<in> set new \<longrightarrow>
           strict_prefix (comps (rootWithoutClientComponent s)) p \<and> p \<in> V)"
    using n by (intro exI [of _ "n1 @ n2"]) auto
  have f: "map_of (filesystems w) p = None \<and> map_of (filesystems w2) p = Some True \<and>
        strict_prefix (comps (rootWithoutClientComponent s)) p \<and> p \<in> V \<and> p \<noteq> comps lp"
    if "map_of (filesystems w2) p \<noteq> map_of (filesystems w) p" for p
  proof (cases "map_of (filesystems w1) p = map_of (filesystems w) p")
    case True
    with that assms(2) show ?thesis unfolding walk_frame_def by metis
  next
    case False
    with assms(1) have 1: "map_of (filesystems w) p = None" "map_of (filesystems w1) p = Some True"
      "strict_prefix (comps (rootWithoutClientComponent s)) p" "p \<in> V" "p \<noteq> comps lp"
      unfolding walk_frame_def by blast+
    with assms(2) have "map_of (filesystems w2) p = Some True"
      unfolding walk_frame_def by (metis option.distinct(1))
    with 1 show ?thesis by simp
  qed
  show ?thesis
    unfolding walk_frame_def
    using assms c f by (simp add: walk_frame_def)
qed

lemma walk_frame_called: "walk_frame s lp V w (called (Call_GetPlaceholderState k) w)"
  unfolding walk_frame_def by (auto simp: called_def)

lemma Receive_visit_frame:
  assumes "Receive_visit s lp v (e, w) = (b, e', w')"
    and "prefix (comps (rootWithoutClientComponent s)) (comps lp)"
    and "prefix (comps v) (comps lp)"
  shows "walk_frame s lp {comps v} w w'"
proof (cases "Equal v lp")
  case True
  with assms(1) show ?thesis by (simp add: Receive_visit_def walk_frame_refl)
next
  case False
  obtain ph ge w1 where g: "ZFSGetFilesystemPlaceholderState v w = ((ph, ge), w1)"
    by (metis surj_pair)
  note gc = ZFSGetFilesystemPlaceholderState_cases [OF g]
  have f1: "walk_frame s lp {comps v} w w1"
    using gc walk_frame_called by simp
  show ?thesis
  proof (cases "ge = None \<and> \<not> FSExists ph \<and> \<not> HasPrefix (rootWithoutClientComponent s) v")
    case nc: False
    with assms(1) False g have "w' = w1"
      by (auto simp: Receive_visit_def split: option.splits if_splits)
    with f1 show ?thesis by simp
  next
    case True
    obtain r w2 where c: "ZFSCreatePlaceholderFilesystem v w1 = (r, w2)"
      by (metis surj_pair)
    with assms(1) False g True have w': "w' = w2"
      by (auto simp: Receive_visit_def split: option.splits if_splits)
    note cc = ZFSCreatePlaceholderFilesystem_cases [OF c]
    from True have np: "\<not> prefix (comps v) (comps (rootWithoutClientComponent s))"
      by (simp add: HasPrefix_iff)
    from assms(2,3) have "prefix (comps v) (comps (rootWithoutClientComponent s)) \<or>
        prefix (comps (rootWithoutClientComponent s)) (comps v)"
      by (rule prefix_same_cases [THEN disjE]) auto
    with np have sp: "strict_prefix (comps (rootWithoutClientComponent s)) (comps v)"
      by (auto simp: strict_prefix_def)
    from False have ne: "comps v \<noteq> comps lp" by (simp add: Equal_iff)
    have f2: "walk_frame s lp {comps v} w1 w2"
    proof (cases r)
      case (Some err)
      with cc sp show ?thesis
        unfolding walk_frame_def by simp
    next
      case None
      with cc have fs: "map_of (filesystems w1) (comps v) = None"
        "filesystems w2 = filesystems w1 @ [(comps v, True)]" by simp_all
      have m: "map_of (filesystems w2) p = (if p = comps v then Some True else map_of (filesystems w1) p)" for p
        using fs by (cases "map_of (filesystems w1) p") (auto simp: map_add_def)
      from cc have rest: "failing w2 = failing w1" "receive_resume_token w2 = receive_resume_token w1"
        "resume_recv_supported w2 = resume_recv_supported w1"
        "calls w2 = calls w1 @ [Call_CreatePlaceholder (comps v)]"
        by simp_all
      show ?thesis
        unfolding walk_frame_def
        using rest fs(1) sp ne by (auto simp: m)
    qed
    from walk_frame_trans [OF f1 f2] w' show ?thesis by simp
  qed
qed

lemma WalkTopDown_frame:
  assumes "prefix (comps (rootWithoutClientComponent s)) (comps lp)"
  shows "WalkTopDown (Receive_visit s lp) vs (e, w) = (e', w') \<Longrightarrow>
     \<forall>v \<in> set vs. prefix (comps v) (comps lp) \<Longrightarrow>
     walk_frame s lp (comps ` set vs) w w'"
proof (induction vs arbitrary: e w)
  case Nil
  then show ?case by (simp add: walk_frame_refl)
next
  case (Cons v vs)
  obtain b e1 w1 where v: "Receive_visit s lp v (e, w) = (b, e1, w1)"
    by (metis surj_pair)
  from Cons.prems(2) have pv: "prefix (comps v) (comps lp)" by simp
  have f1: "walk_frame s lp (comps ` set (v # vs)) w w1"
    using Receive_visit_frame [OF v assms pv] by (rule walk_frame_mono) simp
  show ?case
  proof (cases b)
    case False
    with Cons.prems(1) v have "w' = w1" by simp
    with f1 show ?thesis by simp
  next
    case True
    with Cons.prems(1) v have "WalkTopDown (Receive_visit s lp) vs (e1, w1) = (e', w')" by simp
    from Cons.IH [OF this] Cons.prems(2)
    have "walk_frame s lp (comps ` set vs) w1 w'" by simp
    then have "walk_frame s lp (comps ` set (v # vs)) w1 w'"
      by (rule walk_frame_mono) auto
    with f1 show ?thesis by (rule walk_frame_trans)
  qed
qed


lemma Receive_visit_existing:
  assumes "\<not> Equal v lp" "failing w (Call_GetPlaceholderState (comps v)) = None"
    and "map_of (filesystems w) (comps v) \<noteq> None"
  shows "Receive_visit s lp v (e, w) = (True, e, called (Call_GetPlaceholderState (comps v)) w)"
  using assms
  by (auto simp: Receive_visit_def ZFSGetFilesystemPlaceholderState_def Let_def)

lemma Receive_visit_missing_above:
  assumes "\<not> Equal v lp" "failing w (Call_GetPlaceholderState (comps v)) = None"
    and "map_of (filesystems w) (comps v) = None"
    and "HasPrefix (rootWithoutClientComponent s) v"
  shows "Receive_visit s lp v (e, w) =
     (False,
      Some (if Length v = 1 then Msg ''pool not imported'' else Msg ''root_fs does not exist''),
      called (Call_GetPlaceholderState (comps v)) w)"
  using assms
  by (simp add: Receive_visit_def ZFSGetFilesystemPlaceholderState_def Let_def)

lemma WalkTopDown_existing:
  assumes "\<forall>v \<in> set xs. \<not> Equal v lp \<and> failing w (Call_GetPlaceholderState (comps v)) = None \<and>
             map_of (filesystems w) (comps v) \<noteq> None"
  shows "WalkTopDown (Receive_visit s lp) (xs @ ys) (e, w) =
         WalkTopDown (Receive_visit s lp) ys
           (e, w\<lparr>calls := calls w @ map (\<lambda>v. Call_GetPlaceholderState (comps v)) xs\<rparr>)"
  using assms
proof (induction xs arbitrary: w)
  case Nil
  then show ?case by simp
next
  case (Cons v xs)
  let ?w1 = "called (Call_GetPlaceholderState (comps v)) w"
  from Cons.prems have v: "Receive_visit s lp v (e, w) = (True, e, ?w1)"
    by (simp add: Receive_visit_existing)
  from Cons.prems have "\<forall>v \<in> set xs. \<not> Equal v lp \<and>
      failing ?w1 (Call_GetPlaceholderState (comps v)) = None \<and>
      map_of (filesystems ?w1) (comps v) \<noteq> None"
    by simp
  from Cons.IH [OF this] v show ?case
    by (simp add: called_def)
qed

lemma forest_paths_split:
  assumes "0 < n" "n \<le> length (comps lp)"
  shows "forest_paths lp =
     map (\<lambda>j. \<lparr>comps = take j (comps lp)\<rparr>) [1..<n] @
     \<lparr>comps = take n (comps lp)\<rparr> #
     map (\<lambda>j. \<lparr>comps = take j (comps lp)\<rparr>) [Suc n..<Suc (length (comps lp))]"
proof -
  have "[1..<Suc (length (comps lp))] = [1..<n] @ [n..<Suc (length (comps lp))]"
    using upt_add_eq_append [of 1 n "Suc (length (comps lp)) - n"] assms by simp
  also have "[n..<Suc (length (comps lp))] = n # [Suc n..<Suc (length (comps lp))]"
    using assms by (simp add: upt_conv_Cons)
  finally show ?thesis by (simp add: forest_paths_def)
qed

lemma forest_paths_prefix: "v \<in> set (forest_paths lp) \<Longrightarrow> prefix (comps v) (comps lp)"
  by (auto simp: forest_paths_def take_is_prefix)

lemma Receive_walk_missing_above:
  assumes root: "strict_prefix (comps (rootWithoutClientComponent s)) (comps lp)"
    and p: "p \<noteq> []" "prefix p (comps (rootWithoutClientComponent s))"
    and missing: "map_of (filesystems w) p = None"
    and above: "\<forall>q. q \<noteq> [] \<and> strict_prefix q p \<longrightarrow> map_of (filesystems w) q \<noteq> None"
    and probes: "\<forall>q. q \<noteq> [] \<and> prefix q p \<longrightarrow> failing w (Call_GetPlaceholderState q) = None"
  shows "Receive_walk s lp w =
     (Some (if length p = 1 then Msg ''pool not imported'' else Msg ''root_fs does not exist''),
      w\<lparr>calls := calls w @ map (\<lambda>j. Call_GetPlaceholderState (take j (comps lp))) [1..<length p]
                  @ [Call_GetPlaceholderState p]\<rparr>)"
proof -
  let ?n = "length p"
  let ?f = "\<lambda>j. \<lparr>comps = take j (comps lp)\<rparr>"
  from root p(2) have plp: "strict_prefix p (comps lp)"
    by (meson prefix_order.le_less_trans)
  then have n: "0 < ?n" "?n < length (comps lp)"
    using p(1) prefix_length_less [of p "comps lp"] by auto
  from plp have tk: "take ?n (comps lp) = p"
    by (auto simp: strict_prefix_def prefix_def)
  have pre: "\<forall>v \<in> set (map ?f [1..<?n]). \<not> Equal v lp \<and>
      failing w (Call_GetPlaceholderState (comps v)) = None \<and>
      map_of (filesystems w) (comps v) \<noteq> None"
  proof
    fix v assume "v \<in> set (map ?f [1..<?n])"
    then obtain j where j: "1 \<le> j" "j < ?n" "v = ?f j" by auto
    have tj: "take j (comps lp) = take j p"
      using tk j(2) by (metis min.absorb2 less_imp_le take_take min.commute)
    have sp: "strict_prefix (take j p) p"
      using j(2) by (auto simp: strict_prefix_def take_is_prefix dest: arg_cong [of _ _ length])
    have ne: "take j p \<noteq> []" using j n by auto
    have "length (comps v) \<noteq> length (comps lp)" using j n by simp
    then have "\<not> Equal v lp" by (auto simp: Equal_iff)
    moreover have "failing w (Call_GetPlaceholderState (comps v)) = None"
      using probes sp ne j(3) tj by (auto simp: strict_prefix_def)
    moreover have "map_of (filesystems w) (comps v) \<noteq> None"
      using above sp ne j(3) tj by auto
    ultimately show "\<not> Equal v lp \<and>
      failing w (Call_GetPlaceholderState (comps v)) = None \<and>
      map_of (filesystems w) (comps v) \<noteq> None" by simp
  qed
  let ?w1 = "w\<lparr>calls := calls w @ map (\<lambda>v. Call_GetPlaceholderState (comps v)) (map ?f [1..<?n])\<rparr>"
  have "\<not> Equal (?f ?n) lp"
    using n by (auto simp: Equal_iff dest: arg_cong [of _ _ length])
  moreover have "failing ?w1 (Call_GetPlaceholderState (comps (?f ?n))) = None"
    using probes p(1) tk by simp
  moreover have "map_of (filesystems ?w1) (comps (?f ?n)) = None"
    using missing tk by simp
  moreover have "HasPrefix (rootWithoutClientComponent s) (?f ?n)"
    using p(2) tk by (simp add: HasPrefix_iff)
  ultimately have last: "Receive_visit s lp (?f ?n) (None, ?w1) =
     (False,
      Some (if Length (?f ?n) = 1 then Msg ''pool not imported'' else Msg ''root_fs does not exist''),
      called (Call_GetPlaceholderState (comps (?f ?n))) ?w1)"
    by (rule Receive_visit_missing_above)
  have "Receive_walk s lp w =
        WalkTopDown (Receive_visit s lp)
          (?f ?n # map ?f [Suc ?n..<Suc (length (comps lp))]) (None, ?w1)"
    unfolding Receive_walk_def
    using forest_paths_split [of ?n lp] n WalkTopDown_existing [OF pre] by simp
  also have "\<dots> = (Some (if Length (?f ?n) = 1 then Msg ''pool not imported''
                           else Msg ''root_fs does not exist''),
                    called (Call_GetPlaceholderState (comps (?f ?n))) ?w1)"
    using last by simp
  finally show ?thesis
    using tk by (simp add: called_def Length_def comp_def)
qed

text \<open>
  The walk for a target \<open>lp\<close> that lies strictly below the root without client component
  (it does when the client root is that root or lies below it). Every filesystem
  the walk creates did not exist before, has the placeholder property set to true, and lies
  strictly below that root and strictly above \<open>lp\<close>; the walk does not even try to create
  one elsewhere. When the walk reaches a missing path at or above the root (every non-empty
  proper prefix of it exists and the state of each can be read), it ends with the error
  \<open>pool not imported\<close> if the path has one component and \<open>root_fs does not exist\<close>
  otherwise, and it creates nothing.
\<close>

theorem Receive_walk_placeholders:
  assumes "strict_prefix (comps (rootWithoutClientComponent s)) (comps lp)"
    and "Receive_walk s lp w = (visitErr, w')"
  shows "(\<forall>p. map_of (filesystems w') p \<noteq> map_of (filesystems w) p \<longrightarrow>
            map_of (filesystems w) p = None \<and> map_of (filesystems w') p = Some True \<and>
            strict_prefix (comps (rootWithoutClientComponent s)) p \<and> strict_prefix p (comps lp))
       \<and> (\<exists>new. calls w' = calls w @ new \<and>
            (\<forall>p. Call_CreatePlaceholder p \<in> set new \<longrightarrow>
               strict_prefix (comps (rootWithoutClientComponent s)) p \<and> prefix p (comps lp)))
       \<and> (\<forall>p. p \<noteq> [] \<and> prefix p (comps (rootWithoutClientComponent s)) \<and>
              map_of (filesystems w) p = None \<and>
              (\<forall>q. q \<noteq> [] \<and> strict_prefix q p \<longrightarrow> map_of (filesystems w) q \<noteq> None) \<and>
              (\<forall>q. q \<noteq> [] \<and> prefix q p \<longrightarrow> failing w (Call_GetPlaceholderState q) = None)
            \<longrightarrow> visitErr = Some (if length p = 1 then Msg ''pool not imported''
                                 else Msg ''root_fs does not exist'') \<and>
                filesystems w' = filesystems w \<and>
                (\<forall>q. Call_CreatePlaceholder q \<notin> set (calls w') - set (calls w)))"
proof -
  have rp: "prefix (comps (rootWithoutClientComponent s)) (comps lp)"
    using assms(1) by (simp add: strict_prefix_def)
  have "walk_frame s lp (comps ` set (forest_paths lp)) w w'"
    using WalkTopDown_frame [OF rp, of "forest_paths lp" None w visitErr w'] assms(2)
    by (simp add: Receive_walk_def forest_paths_prefix)
  then have fr: "\<forall>p. map_of (filesystems w') p \<noteq> map_of (filesystems w) p \<longrightarrow>
        map_of (filesystems w) p = None \<and> map_of (filesystems w') p = Some True \<and>
        strict_prefix (comps (rootWithoutClientComponent s)) p \<and>
        p \<in> comps ` set (forest_paths lp) \<and> p \<noteq> comps lp"
    and cl: "\<exists>new. calls w' = calls w @ new \<and>
        (\<forall>p. Call_CreatePlaceholder p \<in> set new \<longrightarrow>
           strict_prefix (comps (rootWithoutClientComponent s)) p \<and>
           p \<in> comps ` set (forest_paths lp))"
    unfolding walk_frame_def by blast+
  have vis: "p \<in> comps ` set (forest_paths lp) \<Longrightarrow> prefix p (comps lp)" for p
    using forest_paths_prefix by auto
  have 1: "\<forall>p. map_of (filesystems w') p \<noteq> map_of (filesystems w) p \<longrightarrow>
            map_of (filesystems w) p = None \<and> map_of (filesystems w') p = Some True \<and>
            strict_prefix (comps (rootWithoutClientComponent s)) p \<and> strict_prefix p (comps lp)"
    using fr vis by (auto simp: strict_prefix_def)
  have 2: "\<exists>new. calls w' = calls w @ new \<and>
            (\<forall>p. Call_CreatePlaceholder p \<in> set new \<longrightarrow>
               strict_prefix (comps (rootWithoutClientComponent s)) p \<and> prefix p (comps lp))"
    using cl vis by blast
  have 3: "visitErr = Some (if length p = 1 then Msg ''pool not imported''
                                 else Msg ''root_fs does not exist'') \<and>
           filesystems w' = filesystems w \<and>
           (\<forall>q. Call_CreatePlaceholder q \<notin> set (calls w') - set (calls w))"
    if "p \<noteq> [] \<and> prefix p (comps (rootWithoutClientComponent s)) \<and>
              map_of (filesystems w) p = None \<and>
              (\<forall>q. q \<noteq> [] \<and> strict_prefix q p \<longrightarrow> map_of (filesystems w) q \<noteq> None) \<and>
              (\<forall>q. q \<noteq> [] \<and> prefix q p \<longrightarrow> failing w (Call_GetPlaceholderState q) = None)"
    for p
  proof -
    from that have "Receive_walk s lp w =
      (Some (if length p = 1 then Msg ''pool not imported'' else Msg ''root_fs does not exist''),
       w\<lparr>calls := calls w @ map (\<lambda>j. Call_GetPlaceholderState (take j (comps lp))) [1..<length p]
                  @ [Call_GetPlaceholderState p]\<rparr>)"
      by (intro Receive_walk_missing_above [OF assms(1)]) simp_all
    with assms(2) show ?thesis by auto
  qed
  from 1 2 3 show ?thesis by blast
qed

lemmas walk_eval_simps =
  Receive_walk_def forest_paths_def Receive_visit_def ZFSGetFilesystemPlaceholderState_def
  ZFSCreatePlaceholderFilesystem_def called_def Let_def HasPrefix_def Equal_def Length_def
  example_receiver_def example_lp_def example_recv_world_def example_fresh_def

lemma example_walk_fresh:
  "fst (Receive_walk example_receiver example_lp (example_recv_world example_fresh)) = None"
  "filesystems (snd (Receive_walk example_receiver example_lp (example_recv_world example_fresh)))
     = example_fresh @ [([''tank'', ''backups'', ''alice''], True),
                        ([''tank'', ''backups'', ''alice'', ''proj''], True)]"
  by (simp_all add: walk_eval_simps)

lemma nonempty_strict_prefix_single: "q \<noteq> [] \<Longrightarrow> strict_prefix q [a] \<Longrightarrow> False"
  by (cases q) (auto simp: strict_prefix_def)

lemma nonempty_strict_prefix_pair: "q \<noteq> [] \<Longrightarrow> strict_prefix q [a, b] \<Longrightarrow> q = [a]"
  by (cases q; cases "tl q") (auto simp: strict_prefix_def)

lemma example_walk_pool_missing:
  "[''tank''] \<noteq> [] \<and> prefix [''tank''] (comps (rootWithoutClientComponent example_receiver)) \<and>
      map_of (filesystems (example_recv_world [])) [''tank''] = None \<and>
      (\<forall>q. q \<noteq> [] \<and> strict_prefix q [''tank''] \<longrightarrow> map_of (filesystems (example_recv_world [])) q \<noteq> None) \<and>
      (\<forall>q. q \<noteq> [] \<and> prefix q [''tank''] \<longrightarrow>
           failing (example_recv_world []) (Call_GetPlaceholderState q) = None)"
proof (intro conjI allI impI)
  show "[''tank''] \<noteq> []" by simp
  show "prefix [''tank''] (comps (rootWithoutClientComponent example_receiver))"
    by (simp add: example_receiver_def)
  show "map_of (filesystems (example_recv_world [])) [''tank''] = None"
    by (simp add: example_recv_world_def)
  show "map_of (filesystems (example_recv_world [])) q \<noteq> None"
    if "q \<noteq> [] \<and> strict_prefix q [''tank'']" for q
    using that nonempty_strict_prefix_single [of q "''tank''"] by blast
  show "failing (example_recv_world []) (Call_GetPlaceholderState q) = None" for q
    by (simp add: example_recv_world_def)
qed

lemma example_walk_root_missing: "[''tank'', ''backups''] \<noteq> [] \<and>
      prefix [''tank'', ''backups''] (comps (rootWithoutClientComponent example_receiver)) \<and>
      map_of (filesystems (example_recv_world [([''tank''], False)])) [''tank'', ''backups''] = None \<and>
      (\<forall>q. q \<noteq> [] \<and> strict_prefix q [''tank'', ''backups''] \<longrightarrow>
           map_of (filesystems (example_recv_world [([''tank''], False)])) q \<noteq> None) \<and>
      (\<forall>q. q \<noteq> [] \<and> prefix q [''tank'', ''backups''] \<longrightarrow>
           failing (example_recv_world [([''tank''], False)]) (Call_GetPlaceholderState q) = None)"
proof (intro conjI allI impI)
  show "[''tank'', ''backups''] \<noteq> []" by simp
  show "prefix [''tank'', ''backups''] (comps (rootWithoutClientComponent example_receiver))"
    by (simp add: example_receiver_def)
  show "map_of (filesystems (example_recv_world [([''tank''], False)])) [''tank'', ''backups''] = None"
    by (simp add: example_recv_world_def)
  show "map_of (filesystems (example_recv_world [([''tank''], False)])) q \<noteq> None"
    if "q \<noteq> [] \<and> strict_prefix q [''tank'', ''backups'']" for q
  proof -
    from that have "q = [''tank'']" by (blast dest: nonempty_strict_prefix_pair)
    then show ?thesis by (simp add: example_recv_world_def)
  qed
  show "failing (example_recv_world [([''tank''], False)]) (Call_GetPlaceholderState q) = None" for q
    by (simp add: example_recv_world_def)
qed

theorem Receive_walk_placeholders_witness:
  "(\<exists>w'. Receive_walk example_receiver example_lp (example_recv_world example_fresh) = (None, w')
       \<and> filesystems w' = example_fresh @ [([''tank'', ''backups'', ''alice''], True),
                                           ([''tank'', ''backups'', ''alice'', ''proj''], True)]
       \<and> (\<forall>p. map_of (filesystems w') p \<noteq> map_of example_fresh p \<longrightarrow>
              map_of (filesystems w') p = Some True \<and> strict_prefix [''tank'', ''backups''] p))
   \<and> fst (Receive_walk example_receiver example_lp (example_recv_world []))
       = Some (Msg ''pool not imported'')
   \<and> fst (Receive_walk example_receiver example_lp (example_recv_world [([''tank''], False)]))
       = Some (Msg ''root_fs does not exist'')"
proof -
  have rt: "comps (rootWithoutClientComponent example_receiver) = [''tank'', ''backups'']"
    by (simp add: example_receiver_def)
  have fs: "filesystems (example_recv_world fss) = fss" for fss
    by (simp add: example_recv_world_def)
  have root: "strict_prefix (comps (rootWithoutClientComponent example_receiver)) (comps example_lp)"
    by (simp add: example_receiver_def example_lp_def strict_prefix_def)
  obtain e1 w1 where
    r1: "Receive_walk example_receiver example_lp (example_recv_world example_fresh) = (e1, w1)"
    by (cases "Receive_walk example_receiver example_lp (example_recv_world example_fresh)")
  obtain e2 w2 where
    r2: "Receive_walk example_receiver example_lp (example_recv_world []) = (e2, w2)"
    by (cases "Receive_walk example_receiver example_lp (example_recv_world [])")
  obtain e3 w3 where
    r3: "Receive_walk example_receiver example_lp (example_recv_world [([''tank''], False)]) = (e3, w3)"
    by (cases "Receive_walk example_receiver example_lp (example_recv_world [([''tank''], False)])")
  from example_walk_fresh r1 have ev: "e1 = None"
    "filesystems w1 = example_fresh @ [([''tank'', ''backups'', ''alice''], True),
                                       ([''tank'', ''backups'', ''alice'', ''proj''], True)]"
    by simp_all
  note c1 = Receive_walk_placeholders [OF root r1, THEN conjunct1, unfolded rt fs]
  have created: "\<forall>p. map_of (filesystems w1) p \<noteq> map_of example_fresh p \<longrightarrow>
              map_of (filesystems w1) p = Some True \<and> strict_prefix [''tank'', ''backups''] p"
    using c1 by blast
  have first: "\<exists>w'. Receive_walk example_receiver example_lp (example_recv_world example_fresh) = (None, w')
       \<and> filesystems w' = example_fresh @ [([''tank'', ''backups'', ''alice''], True),
                                           ([''tank'', ''backups'', ''alice'', ''proj''], True)]
       \<and> (\<forall>p. map_of (filesystems w') p \<noteq> map_of example_fresh p \<longrightarrow>
              map_of (filesystems w') p = Some True \<and> strict_prefix [''tank'', ''backups''] p)"
    using ev r1 created by (intro exI [of _ w1]) simp
  note t2 = Receive_walk_placeholders [OF root r2, THEN conjunct2, THEN conjunct2, rule_format,
      of "[''tank'']"]
  note t3 = Receive_walk_placeholders [OF root r3, THEN conjunct2, THEN conjunct2, rule_format,
      of "[''tank'', ''backups'']"]
  from t2 [OF example_walk_pool_missing] have "e2 = Some (Msg ''pool not imported'')" by simp
  moreover from t3 [OF example_walk_root_missing]
  have "e3 = Some (Msg ''root_fs does not exist'')" by simp
  ultimately show ?thesis using first r2 r3 by simp
qed

section \<open>Facts about Receive after the walk\<close>







lemmas receive_eval_simps =
  Receiver_Receive_def Receive_after_walk_def Receive_stream_def subroot_MapToLocal_def
  NewDatasetPath_def ContainsAny_def FORBIDDEN_def Extend_def ToString_def
  Receive_walk_def forest_paths_def Receive_visit_def ZFSGetFilesystemPlaceholderState_def
  ZFSCreatePlaceholderFilesystem_def ZFSSetPlaceholder_def ZFSRecvClearResumeToken_def
  ResumeRecvSupported_def Acquire_def ZFSRecv_def validateZFSFilesystem_def
  called_def Let_def HasPrefix_def Equal_def Length_def
  example_receiver_def example_client_root_def example_target_def example_receive_req_def
  example_recv_world_def example_populated_def example_refusing_world_def







section \<open>The client root and the placeholders of a receive\<close>

text \<open>
  The target of a receive lies strictly below the client root, and without client identity
  the client root is the root of the receiver: then the walk creates placeholders only
  strictly below that root.
\<close>

lemma subroot_MapToLocal_below:
  "subroot_MapToLocal root fs = Inr lp \<Longrightarrow> strict_prefix (comps root) (comps lp)"
  by (auto simp: subroot_MapToLocal_def Extend_def Length_def strict_prefix_def
      split: sum.splits if_splits)

lemma clientRootFromCtx_no_identity:
  "\<not> appendClientIdentity s \<Longrightarrow> clientRootFromCtx s ctx = Inr (rootWithoutClientComponent s)"
  by (simp add: clientRootFromCtx_def)

lemma Receive_target_below_root:
  assumes "prefix (comps (rootWithoutClientComponent s)) (comps root)"
    and "subroot_MapToLocal root fs = Inr lp"
  shows "strict_prefix (comps (rootWithoutClientComponent s)) (comps lp)"
  using subroot_MapToLocal_below [OF assms(2)] assms(1)
  by (rule prefix_order.le_less_trans [rotated])

text \<open>
  With client identity, \<open>clientRoot\<close> compares the number of components only after
  \<open>path.Join\<close> has cleaned the path, so an identity that climbs out of the root with \<open>..\<close>
  and adds two components is accepted: for the root \<open>tank/backups\<close> the identity \<open>../x/y\<close>
  gives the client root \<open>tank/x/y\<close>.
\<close>

lemma example_dotdot_root:
  "clientRoot \<lparr>comps = [''tank'', ''backups'']\<rparr> example_dotdot_identity
     = Inr \<lparr>comps = [''tank'', ''x'', ''y'']\<rparr>"
  by (simp add: clientRoot_def path_Join_def path_Clean_def example_dotdot_identity_def
      NewDatasetPath_def ContainsAny_def FORBIDDEN_def ToString_def Length_def Let_def)

lemma example_dotdot_receive:
  "Receiver_Receive_ctx example_receiver (Some example_dotdot_identity) example_dotdot_req
     (example_recv_world example_fresh)
   = Receiver_Receive example_receiver \<lparr>comps = [''tank'', ''x'', ''y'']\<rparr> example_dotdot_req
       (example_recv_world example_fresh)"
  using example_dotdot_root
  by (simp add: Receiver_Receive_ctx_def clientRootFromCtx_def example_receiver_def)

text \<open>
  Claim C3. The placeholder hierarchy walk of \<open>Receive\<close> is to create filesystems only
  strictly below the root without client component. It does not: the receiver with the root
  \<open>tank/backups\<close> accepts the client identity \<open>../x/y\<close>, its client root is \<open>tank/x/y\<close>, and
  the receive of the filesystem \<open>a\<close>, while \<open>tank\<close> and \<open>tank/backups\<close> exist, succeeds and
  creates the placeholder \<open>tank/x\<close>, which did not exist before and does not lie below
  \<open>tank/backups\<close>. The closure tests only that the missing path is not at or above the root.
\<close>

theorem Receive_creates_placeholder_outside_root:
  "TestClientIdentity (rootWithoutClientComponent example_receiver) example_dotdot_identity = None
   \<and> clientRootFromCtx example_receiver (Some example_dotdot_identity)
       = Inr \<lparr>comps = [''tank'', ''x'', ''y'']\<rparr>
   \<and> fst (Receiver_Receive_ctx example_receiver (Some example_dotdot_identity) example_dotdot_req
            (example_recv_world example_fresh)) = Inr ()
   \<and> map_of (filesystems (example_recv_world example_fresh)) [''tank'', ''x''] = None
   \<and> map_of (filesystems (snd (Receiver_Receive_ctx example_receiver (Some example_dotdot_identity)
                                   example_dotdot_req (example_recv_world example_fresh))))
        [''tank'', ''x''] = Some True
   \<and> Call_CreatePlaceholder [''tank'', ''x'']
        \<in> set (calls (snd (Receiver_Receive_ctx example_receiver (Some example_dotdot_identity)
                                   example_dotdot_req (example_recv_world example_fresh))))
   \<and> \<not> prefix (comps (rootWithoutClientComponent example_receiver)) [''tank'', ''x'']"
proof -
  have cr: "clientRootFromCtx example_receiver (Some example_dotdot_identity)
       = Inr \<lparr>comps = [''tank'', ''x'', ''y'']\<rparr>"
    using example_dotdot_root by (simp add: clientRootFromCtx_def example_receiver_def)
  have t: "TestClientIdentity (rootWithoutClientComponent example_receiver)
             example_dotdot_identity = None"
    using example_dotdot_root by (simp add: TestClientIdentity_def example_receiver_def)
  have r: "fst (Receiver_Receive example_receiver \<lparr>comps = [''tank'', ''x'', ''y'']\<rparr>
             example_dotdot_req (example_recv_world example_fresh)) = Inr ()"
    by (simp add: receive_eval_simps example_dotdot_req_def example_fresh_def)
  have f: "map_of (filesystems (snd (Receiver_Receive example_receiver
             \<lparr>comps = [''tank'', ''x'', ''y'']\<rparr> example_dotdot_req
             (example_recv_world example_fresh)))) [''tank'', ''x''] = Some True"
    by (simp add: receive_eval_simps example_dotdot_req_def example_fresh_def)
  have c: "Call_CreatePlaceholder [''tank'', ''x'']
        \<in> set (calls (snd (Receiver_Receive example_receiver
             \<lparr>comps = [''tank'', ''x'', ''y'']\<rparr> example_dotdot_req
             (example_recv_world example_fresh))))"
    by (simp add: receive_eval_simps example_dotdot_req_def example_fresh_def)
  have b: "map_of (filesystems (example_recv_world example_fresh)) [''tank'', ''x''] = None"
    by (simp add: example_recv_world_def example_fresh_def)
  have o: "\<not> prefix (comps (rootWithoutClientComponent example_receiver)) [''tank'', ''x'']"
    by (simp add: example_receiver_def)
  from t cr r f c b o show ?thesis
    by (simp only: example_dotdot_receive simp_thms)
qed

end
